theory Spec2Isabelle
  imports Complex_Main
begin

section \<open>NumPy values\<close>

text \<open>
  The notebook computes on \<^verbatim>\<open>numpy.float64\<close> arrays. A float is modelled as a real
  number or one of the three IEEE special values; the notebook itself creates negative
  infinity with \<^verbatim>\<open>np.log(np.zeros(n))\<close>. The special values combine as IEEE 754
  prescribes, and \<^verbatim>\<open>np.exp\<close> has the range of the 64-bit format: it overflows to
  infinity and underflows to zero. Everything else on finite values is exact real
  arithmetic: the rounding of the 64-bit format and the overflow of sums are outside the
  model, and the two signed zeros (\<^verbatim>\<open>np.NZERO\<close> is \<^verbatim>\<open>-0.0\<close>) are one value.
\<close>

datatype np_float = Fin real | PInf | NInf | NaN

datatype py_error = ValueError | IndexError | KeyError

fun fadd :: "np_float \<Rightarrow> np_float \<Rightarrow> np_float" where
  "fadd NaN y = NaN"
| "fadd (Fin a) NaN = NaN"
| "fadd PInf NaN = NaN"
| "fadd NInf NaN = NaN"
| "fadd (Fin a) (Fin b) = Fin (a + b)"
| "fadd (Fin a) PInf = PInf"
| "fadd (Fin a) NInf = NInf"
| "fadd PInf (Fin b) = PInf"
| "fadd PInf PInf = PInf"
| "fadd PInf NInf = NaN"
| "fadd NInf (Fin b) = NInf"
| "fadd NInf PInf = NaN"
| "fadd NInf NInf = NInf"

fun fneg :: "np_float \<Rightarrow> np_float" where
  "fneg (Fin a) = Fin (- a)"
| "fneg PInf = NInf"
| "fneg NInf = PInf"
| "fneg NaN = NaN"

definition fsub :: "np_float \<Rightarrow> np_float \<Rightarrow> np_float" where
  "fsub x y = fadd x (fneg y)"

text \<open>\<^verbatim>\<open>np.exp\<close> on 64-bit floats: the result is infinity above the logarithm of the
  largest float and zero below the logarithm of half the smallest positive float
  (NumPy does not raise on either).\<close>

definition EXP_MAX_ARG :: real where
  "EXP_MAX_ARG = 709782712893384 / 1000000000000"

definition EXP_MIN_ARG :: real where
  "EXP_MIN_ARG = - (7451332191019412 / 10000000000000)"

fun np_exp :: "np_float \<Rightarrow> np_float" where
  "np_exp (Fin a) =
     (if EXP_MAX_ARG < a then PInf else if a < EXP_MIN_ARG then Fin 0 else Fin (exp a))"
| "np_exp PInf = PInf"
| "np_exp NInf = Fin 0"
| "np_exp NaN = NaN"

text \<open>\<^verbatim>\<open>np.log\<close>: the logarithm of zero is negative infinity and the logarithm of a
  negative number is NaN (NumPy warns and goes on).\<close>

fun np_log :: "np_float \<Rightarrow> np_float" where
  "np_log (Fin a) = (if 0 < a then Fin (ln a) else if a = 0 then NInf else NaN)"
| "np_log PInf = PInf"
| "np_log NInf = NaN"
| "np_log NaN = NaN"

text \<open>The comparison \<^verbatim>\<open>x >= y\<close> of two floats: false as soon as one side is NaN.\<close>

fun fge :: "np_float \<Rightarrow> np_float \<Rightarrow> bool" where
  "fge NaN y = False"
| "fge (Fin a) NaN = False"
| "fge PInf NaN = False"
| "fge NInf NaN = False"
| "fge (Fin a) (Fin b) = (b \<le> a)"
| "fge (Fin a) PInf = False"
| "fge (Fin a) NInf = True"
| "fge PInf (Fin b) = True"
| "fge PInf PInf = True"
| "fge PInf NInf = True"
| "fge NInf (Fin b) = False"
| "fge NInf PInf = False"
| "fge NInf NInf = True"

text \<open>The order NumPy sorts and maximises by: the IEEE order with NaN above everything
  (\<^verbatim>\<open>np.sort\<close> puts NaN last, \<^verbatim>\<open>np.max\<close> and \<^verbatim>\<open>np.argmax\<close> return a NaN when there
  is one).\<close>

fun np_le :: "np_float \<Rightarrow> np_float \<Rightarrow> bool" where
  "np_le x NaN = True"
| "np_le NaN (Fin b) = False"
| "np_le NaN PInf = False"
| "np_le NaN NInf = False"
| "np_le NInf (Fin b) = True"
| "np_le NInf PInf = True"
| "np_le NInf NInf = True"
| "np_le (Fin a) (Fin b) = (a \<le> b)"
| "np_le (Fin a) PInf = True"
| "np_le (Fin a) NInf = False"
| "np_le PInf (Fin b) = False"
| "np_le PInf PInf = True"
| "np_le PInf NInf = False"

definition np_lt :: "np_float \<Rightarrow> np_float \<Rightarrow> bool" where
  "np_lt x y = (\<not> np_le y x)"

definition np_sum :: "np_float list \<Rightarrow> np_float" where
  "np_sum xs = foldl fadd (Fin 0) xs"

text \<open>\<^verbatim>\<open>np.max\<close> raises ValueError on an empty axis.\<close>

definition np_max :: "np_float list \<Rightarrow> py_error + np_float" where
  "np_max xs =
     (case xs of
        [] \<Rightarrow> Inl ValueError
      | y # ys \<Rightarrow> Inr (foldl (\<lambda>m x. if np_lt m x then x else m) y ys))"

text \<open>\<^verbatim>\<open>np.argmax\<close> scans from the left and moves to a later element only when it is
  strictly larger, so the first maximal position wins; it raises ValueError on an empty
  sequence.\<close>

fun argmax_scan :: "np_float list \<Rightarrow> nat \<Rightarrow> nat \<Rightarrow> np_float \<Rightarrow> nat" where
  "argmax_scan [] i best m = best"
| "argmax_scan (x # xs) i best m =
     (if np_lt m x then argmax_scan xs (Suc i) i x else argmax_scan xs (Suc i) best m)"

definition np_argmax :: "np_float list \<Rightarrow> py_error + nat" where
  "np_argmax xs =
     (case xs of
        [] \<Rightarrow> Inl ValueError
      | y # ys \<Rightarrow> Inr (argmax_scan ys 1 0 y))"

text \<open>\<^verbatim>\<open>np.argmax\<close> of a boolean array: the first True, and 0 when there is none.\<close>

fun first_true :: "bool list \<Rightarrow> nat option" where
  "first_true [] = None"
| "first_true (b # bs) = (if b then Some 0 else map_option Suc (first_true bs))"

definition np_argmax_bool :: "bool list \<Rightarrow> py_error + nat" where
  "np_argmax_bool bs =
     (case bs of
        [] \<Rightarrow> Inl ValueError
      | _ \<Rightarrow> Inr (case first_true bs of None \<Rightarrow> 0 | Some i \<Rightarrow> i))"

fun cumsum_from :: "np_float \<Rightarrow> np_float list \<Rightarrow> np_float list" where
  "cumsum_from acc [] = []"
| "cumsum_from acc (x # xs) = fadd acc x # cumsum_from (fadd acc x) xs"

definition np_cumsum :: "np_float list \<Rightarrow> np_float list" where
  "np_cumsum xs = cumsum_from (Fin 0) xs"

text \<open>\<^verbatim>\<open>argsort\<close>: the positions of an array in increasing order of their values.
  NumPy's default sort is not stable: among equal values the order of the positions is
  the sorting kernel's choice. The model is an insertion sort, which keeps equal values
  in the order of their positions, one of the orders that NumPy may return.\<close>

fun argsort_insert :: "np_float list \<Rightarrow> nat \<Rightarrow> nat list \<Rightarrow> nat list" where
  "argsort_insert ks i [] = [i]"
| "argsort_insert ks i (j # js) =
     (if np_le (ks ! i) (ks ! j) then i # j # js else j # argsort_insert ks i js)"

definition np_argsort :: "np_float list \<Rightarrow> nat list" where
  "np_argsort ks = foldr (argsort_insert ks) [0..<length ks] []"

text \<open>Elementwise addition of two vectors with NumPy's broadcasting on their one axis:
  equal lengths, or one side of length one; anything else raises ValueError.\<close>

definition broadcast_add :: "np_float list \<Rightarrow> np_float list \<Rightarrow> py_error + np_float list" where
  "broadcast_add xs ys =
     (if length xs = length ys then Inr (map2 fadd xs ys)
      else if length xs = 1 then Inr (map (fadd (hd xs)) ys)
      else if length ys = 1 then Inr (map (\<lambda>x. fadd x (hd ys)) xs)
      else Inl ValueError)"

text \<open>A comprehension whose body may raise: the first error ends it.\<close>

fun traverse :: "('a \<Rightarrow> py_error + 'b) \<Rightarrow> 'a list \<Rightarrow> py_error + 'b list" where
  "traverse f [] = Inr []"
| "traverse f (x # xs) =
     (case f x of
        Inl e \<Rightarrow> Inl e
      | Inr y \<Rightarrow> (case traverse f xs of Inl e \<Rightarrow> Inl e | Inr ys \<Rightarrow> Inr (y # ys)))"

text \<open>\<^verbatim>\<open>np.array\<close> of a list of rows needs rows of one length.\<close>

definition rectangular :: "'a list list \<Rightarrow> bool" where
  "rectangular rows = (case rows of [] \<Rightarrow> True | r # rs \<Rightarrow> list_all (\<lambda>q. length q = length r) rs)"

section \<open>The notebook's constants\<close>

text \<open>\<^verbatim>\<open>itertools.permutations(iterable, r)\<close>: the r-length arrangements of the
  positions of the input, in lexicographic order of the positions.\<close>

fun permutations :: "'a list \<Rightarrow> nat \<Rightarrow> 'a list list" where
  "permutations xs 0 = [[]]"
| "permutations xs (Suc r) =
     concat (map (\<lambda>i. map ((#) (xs ! i)) (permutations (take i xs @ drop (Suc i) xs) r))
                 [0..<length xs])"

definition ALL_WORDS :: "string list" where
  "ALL_WORDS = [''BOAT'', ''CAT'', ''RUM'', ''DRAG'']"

text \<open>\<^verbatim>\<open>tuple.index\<close>: the first position of a word (the notebook only asks for words of
  the tuple).\<close>

fun index_of :: "'a list \<Rightarrow> 'a \<Rightarrow> nat" where
  "index_of [] w = 0"
| "index_of (x # xs) w = (if x = w then 0 else Suc (index_of xs w))"

text \<open>A dictionary from words to indices is an association list with one entry for each
  key, so that \<^verbatim>\<open>len\<close> is its length.\<close>

type_synonym word_index = "(string \<times> nat) list"

definition ALL_WORD_INDEX :: word_index where
  "ALL_WORD_INDEX = map (\<lambda>word. (word, index_of ALL_WORDS word)) ALL_WORDS"

definition ALL_CODES :: "nat list list" where
  "ALL_CODES = permutations [0..<4] 3"

definition LOG_PROB_ZERO :: np_float where
  "LOG_PROB_ZERO = Fin (- 100)"

text \<open>The array \<^verbatim>\<open>log_probabilities\<close> is one-dimensional in the beliefs the notebook
  decodes (\<open>'a\<close> is \<^typ>\<open>np_float\<close>); the type parameter leaves room for the
  two-dimensional arrays that the size-reducing function stores in the same field.\<close>

record 'a NumpyRandomVariable =
  log_probabilities :: "'a list"
  keyword_indices :: "nat list"

definition keyword_card :: "string list" where
  "keyword_card = [ALL_WORDS ! 1, ALL_WORDS ! 0, ALL_WORDS ! 2, ALL_WORDS ! 3]"

definition code :: "nat list" where
  "code = [1, 3, 0]"

definition naive_clue :: "string list" where
  "naive_clue = map (\<lambda>i. keyword_card ! i) code"

text \<open>\<^verbatim>\<open>word_index[keyword]\<close> raises KeyError for an unknown word; the assignment into
  the array raises IndexError for a position beyond its length.\<close>

definition lookup_word :: "word_index \<Rightarrow> string \<Rightarrow> py_error + nat" where
  "lookup_word word_index keyword =
     (case map_of word_index keyword of None \<Rightarrow> Inl KeyError | Some i \<Rightarrow> Inr i)"

definition guesser_random_variable ::
  "string \<Rightarrow> word_index \<Rightarrow> py_error + np_float NumpyRandomVariable" where
  "guesser_random_variable keyword word_index =
     (let log_probs = map np_log (replicate (length word_index) (Fin 0)) in
      case lookup_word word_index keyword of
        Inl e \<Rightarrow> Inl e
      | Inr i \<Rightarrow>
          if i < length log_probs
          then Inr \<lparr>log_probabilities = log_probs[i := Fin 0],
                    keyword_indices = [0..<length word_index]\<rparr>
          else Inl IndexError)"

definition guesser_random_variables ::
  "string list \<Rightarrow> word_index \<Rightarrow> py_error + np_float NumpyRandomVariable list" where
  "guesser_random_variables kcard word_index =
     traverse (\<lambda>keyword.
        case lookup_word word_index keyword of
          Inl e \<Rightarrow> Inl e
        | Inr i \<Rightarrow> Inr \<lparr>log_probabilities = [Fin 0], keyword_indices = [i]\<rparr>) kcard"

definition clue_indices :: "py_error + nat list" where
  "clue_indices = traverse (lookup_word ALL_WORD_INDEX) naive_clue"

section \<open>The guessing functions\<close>

text \<open>The heuristic is a score for a pair of a clue index and a keyword index. NumPy
  applies it to whole arrays by broadcasting; the model applies it entry by entry, over
  the beliefs (rows), the clue positions (columns) and the entries of a support.\<close>

definition naive_clue_and_keyword_log_prob :: "nat \<Rightarrow> nat \<Rightarrow> np_float" where
  "naive_clue_and_keyword_log_prob clue_index keyword_index =
     (if keyword_index = clue_index then Fin 0 else LOG_PROB_ZERO)"

text \<open>\<^verbatim>\<open>log_expected_probability\<close> (the refactored one, with keyword indices) along the
  last axis: one belief and one clue.\<close>

definition log_expected_probability ::
  "(nat \<Rightarrow> np_float) \<Rightarrow> np_float list \<Rightarrow> nat list \<Rightarrow> py_error + np_float" where
  "log_expected_probability keyword_index_to_log_prob_func log_probs kw_indices =
     (case broadcast_add log_probs (map keyword_index_to_log_prob_func kw_indices) of
        Inl e \<Rightarrow> Inl e
      | Inr log_terms \<Rightarrow>
          (case np_max log_terms of
             Inl e \<Rightarrow> Inl e
           | Inr max_log_term \<Rightarrow>
               (let log_offset_terms = map (\<lambda>t. fsub t max_log_term) log_terms;
                    offset_expectation = np_sum (map np_exp log_offset_terms)
                in Inr (fadd (np_log offset_expectation) max_log_term))))"

text \<open>The matrix of log expectations, one row for each belief and one column for each
  clue position.\<close>

definition expectation_matrix ::
  "(nat \<Rightarrow> nat \<Rightarrow> np_float) \<Rightarrow> np_float NumpyRandomVariable list \<Rightarrow> nat list
     \<Rightarrow> py_error + np_float list list" where
  "expectation_matrix func rvs clues =
     traverse (\<lambda>rv. traverse (\<lambda>c. log_expected_probability (func c)
                                     (log_probabilities rv) (keyword_indices rv)) clues) rvs"

text \<open>The length of the common axis of two arrays that NumPy broadcasts against each
  other: equal lengths, or one side of length one; anything else raises ValueError.\<close>

definition broadcast_length :: "nat \<Rightarrow> nat \<Rightarrow> py_error + nat" where
  "broadcast_length a b =
     (if a = b then Inr a else if a = 1 then Inr b else if b = 1 then Inr a
      else Inl ValueError)"

text \<open>\<^verbatim>\<open>log_expected_probabilities_codes\<close>. Indexing the matrix with the array of codes
  checks every entry of every code against the number of rows; \<^verbatim>\<open>trace\<close> then adds
  the diagonal of each code's block, which has as many entries as the shorter of the code
  and the clue.

  Two cases leave the matrix without an entry, and NumPy then checks shapes only.
  With no belief the arrays of the beliefs have one dimension of length 0, which
  broadcasts against a clue of at most one word and raises ValueError against a longer
  one; with beliefs and no clue the supports must still broadcast and the maximum is
  taken over an axis that must not be empty. In both cases the indexing with the codes
  selects nothing, NumPy does not check the codes against the number of rows (it warns),
  and every score is the empty sum.\<close>

definition log_expected_probabilities_codes ::
  "(nat \<Rightarrow> nat \<Rightarrow> np_float) \<Rightarrow> np_float NumpyRandomVariable list \<Rightarrow> nat list
     \<Rightarrow> nat list list \<Rightarrow> py_error + np_float list" where
  "log_expected_probabilities_codes clue_and_keyword_to_log_probability_func random_variables
       clues codes =
     (if random_variables = []
      then (if length clues \<le> 1 then Inr (map (\<lambda>c. Fin 0) codes) else Inl ValueError)
      else if \<not> rectangular (map log_probabilities random_variables)
         \<or> \<not> rectangular (map keyword_indices random_variables)
      then Inl ValueError
      else if clues = []
      then (case broadcast_length (length (log_probabilities (hd random_variables)))
                   (length (keyword_indices (hd random_variables))) of
              Inl e \<Rightarrow> Inl e
            | Inr n \<Rightarrow> if n = 0 then Inl ValueError else Inr (map (\<lambda>c. Fin 0) codes))
      else
        case expectation_matrix clue_and_keyword_to_log_probability_func random_variables
               clues of
          Inl e \<Rightarrow> Inl e
        | Inr log_expected_probabilities \<Rightarrow>
            if list_ex (list_ex (\<lambda>s. length log_expected_probabilities \<le> s)) codes
            then Inl IndexError
            else Inr (map (\<lambda>c. np_sum (map (\<lambda>i. log_expected_probabilities ! (c ! i) ! i)
                                            [0..<min (length c) (length clues)])) codes))"

text \<open>\<^verbatim>\<open>guess = ALL_CODES[np.argmax(log_expectations)]\<close>.\<close>

definition guess :: "nat list list \<Rightarrow> np_float list \<Rightarrow> py_error + nat list" where
  "guess codes log_expectations =
     (case np_argmax log_expectations of
        Inl e \<Rightarrow> Inl e
      | Inr i \<Rightarrow> if i < length codes then Inr (codes ! i) else Inl IndexError)"

section \<open>The size-reducing functions\<close>

text \<open>The pairs of a row and an order that the indexing
  \<^verbatim>\<open>log_probabilties[rows, keyword_indices_by_decreasing_probability]\<close> reads, where
  \<^verbatim>\<open>rows\<close> is the column of the row numbers: NumPy broadcasts the two index arrays, so
  there is one order for each row, or one order for all the rows, or one row for all the
  orders; other numbers of rows and orders raise IndexError.\<close>

definition broadcast_rows :: "'a list \<Rightarrow> 'b list \<Rightarrow> py_error + ('a \<times> 'b) list" where
  "broadcast_rows rows orders =
     (if length rows = length orders then Inr (zip rows orders)
      else if length orders = 1 then Inr (map (\<lambda>row. (row, hd orders)) rows)
      else if length rows = 1 then Inr (map (\<lambda>order. (hd rows, order)) orders)
      else Inl IndexError)"

text \<open>\<^verbatim>\<open>num_indices_for_cumulative_probability\<close>, row by row: the log-probabilities in
  the given order, their cumulative sums, the comparison with the logarithm of the
  threshold, and the position of the first True plus one. Reading a position beyond a
  row raises IndexError, and so does an empty batch (\<^verbatim>\<open>np.array([])\<close> has one
  dimension, and the function indexes two).\<close>

definition num_indices_for_cumulative_probability ::
  "np_float list list \<Rightarrow> nat list list \<Rightarrow> real \<Rightarrow> py_error + nat list" where
  "num_indices_for_cumulative_probability log_probabilties
       keyword_indices_by_decreasing_probability cumulative_probability =
     (if log_probabilties = [] then Inl IndexError
      else
        case broadcast_rows log_probabilties keyword_indices_by_decreasing_probability of
          Inl e \<Rightarrow> Inl e
        | Inr pairs \<Rightarrow>
            traverse (\<lambda>(row, order).
               if list_ex (\<lambda>i. length row \<le> i) order then Inl IndexError
               else (case np_argmax_bool
                            (map (\<lambda>s. fge s (np_log (Fin cumulative_probability)))
                                 (np_cumsum (map (\<lambda>i. row ! i) order))) of
                       Inl e \<Rightarrow> Inl e
                     | Inr earliest_index \<Rightarrow> Inr (earliest_index + 1)))
             pairs)"

text \<open>\<^verbatim>\<open>random_vars_at_least_cumulative_probability\<close>. The last indexing,
  \<^verbatim>\<open>var_log_probabilities[reduced_keyword_indices]\<close>, selects along the first axis:
  each retained keyword index picks a whole row of the matrix of beliefs, and raises
  IndexError when there is no such row.\<close>

definition random_vars_at_least_cumulative_probability ::
  "np_float NumpyRandomVariable list \<Rightarrow> real
     \<Rightarrow> py_error + (np_float list) NumpyRandomVariable list" where
  "random_vars_at_least_cumulative_probability random_variables cumulative_probability =
     (let var_log_probabilities = map log_probabilities random_variables in
      if \<not> rectangular var_log_probabilities then Inl ValueError
      else
        let keyword_indices_by_decreasing_probability =
              map (\<lambda>row. np_argsort (map fneg row)) var_log_probabilities
        in case num_indices_for_cumulative_probability var_log_probabilities
                  keyword_indices_by_decreasing_probability cumulative_probability of
             Inl e \<Rightarrow> Inl e
           | Inr num_indices \<Rightarrow>
               let reduced_keyword_indices =
                     map (take (Max (set num_indices))) keyword_indices_by_decreasing_probability
               in if list_ex (list_ex (\<lambda>i. length var_log_probabilities \<le> i))
                       reduced_keyword_indices
                  then Inl IndexError
                  else
                    let reduced_var_log_probabilities =
                          map (map (\<lambda>i. var_log_probabilities ! i)) reduced_keyword_indices
                    in Inr (map (\<lambda>(log_probs, kw_indices).
                                   \<lparr>log_probabilities = log_probs, keyword_indices = kw_indices\<rparr>)
                              (zip reduced_var_log_probabilities reduced_keyword_indices)))"

section \<open>Notions used to state the properties\<close>

text \<open>The probability a log-value stands for; negative infinity stands for zero.\<close>

fun prob_of :: "np_float \<Rightarrow> real" where
  "prob_of (Fin a) = exp a"
| "prob_of PInf = 0"
| "prob_of NInf = 0"
| "prob_of NaN = 0"

text \<open>A log-value of a probability or of a likelihood: finite, or negative infinity.\<close>

fun log_value :: "np_float \<Rightarrow> bool" where
  "log_value (Fin a) = True"
| "log_value NInf = True"
| "log_value PInf = False"
| "log_value NaN = False"

text \<open>The belief that \<^verbatim>\<open>guesser_random_variables\<close> builds for a keyword of index \<open>i\<close>:
  a support of one index, with log-probability 0.\<close>

definition certain :: "nat \<Rightarrow> np_float NumpyRandomVariable" where
  "certain i = \<lparr>log_probabilities = [Fin 0], keyword_indices = [i]\<rparr>"

text \<open>The belief that \<^verbatim>\<open>guesser_random_variable\<close> builds over a vocabulary of \<open>n\<close> words for
  a keyword of index \<open>i\<close> (lemma \<open>guesser_random_variable_dense\<close>): every word in the
  support, log-probability 0 at \<open>i\<close> and negative infinity everywhere else.\<close>

definition dense_belief :: "nat \<Rightarrow> nat \<Rightarrow> np_float NumpyRandomVariable" where
  "dense_belief n i =
     \<lparr>log_probabilities = (replicate n NInf)[i := Fin 0], keyword_indices = [0..<n]\<rparr>"

text \<open>The full-support belief as the specification words it, with the finite constant
  \<^verbatim>\<open>LOG_PROB_ZERO\<close> in the place of negative infinity. No function of the notebook
  builds it; it is here to be compared with \<open>dense_belief\<close>.\<close>

definition sentinel_belief :: "nat \<Rightarrow> nat \<Rightarrow> np_float NumpyRandomVariable" where
  "sentinel_belief n i =
     \<lparr>log_probabilities = (replicate n LOG_PROB_ZERO)[i := Fin 0], keyword_indices = [0..<n]\<rparr>"

text \<open>The array \<^verbatim>\<open>log_terms\<close> of \<^verbatim>\<open>log_expected_probability\<close> for a support whose two
  arrays have one length: position by position, the log-probability plus the score.\<close>

definition log_terms :: "(nat \<Rightarrow> np_float) \<Rightarrow> np_float list \<Rightarrow> nat list \<Rightarrow> np_float list" where
  "log_terms f lps kis = map2 fadd lps (map f kis)"

text \<open>The real that \<^verbatim>\<open>np.exp\<close> gives for a term shifted down by \<open>m\<close>, when the term is
  finite or negative infinity and not above \<open>m\<close>.\<close>

definition exp_shift :: "real \<Rightarrow> np_float \<Rightarrow> real" where
  "exp_shift m t =
     (case t of Fin a \<Rightarrow> if a - m < EXP_MIN_ARG then 0 else exp (a - m) | _ \<Rightarrow> 0)"

section \<open>Comprehensions, the order of floats, sums\<close>

lemma traverse_Inr_iff:
  "traverse f xs = Inr ys \<longleftrightarrow>
     length ys = length xs \<and> (\<forall>i<length xs. f (xs ! i) = Inr (ys ! i))"
proof (induction xs arbitrary: ys)
  case Nil
  then show ?case by auto
next
  case (Cons x xs)
  show ?case
  proof (cases ys)
    case Nil
    then show ?thesis by (auto split: sum.splits)
  next
    case (Cons y ys')
    then show ?thesis
      using Cons.IH [of ys'] by (auto simp: nth_Cons split: sum.splits nat.splits)
  qed
qed

lemma traverse_total:
  "(\<And>x. x \<in> set xs \<Longrightarrow> \<exists>y. f x = Inr y) \<Longrightarrow> \<exists>ys. traverse f xs = Inr ys"
  by (induction xs) (fastforce split: sum.splits)+

lemma traverse_map: "traverse (\<lambda>x. Inr (g x)) xs = Inr (map g xs)"
  by (induction xs) auto

lemma np_le_refl: "np_le x x"
  by (cases x) auto

lemma np_le_total: "np_le x y \<or> np_le y x"
  by (cases x; cases y) auto

lemma np_le_trans: "np_le x y \<Longrightarrow> np_le y z \<Longrightarrow> np_le x z"
  by (cases x; cases y; cases z) auto

lemma np_le_antisym: "np_le x y \<Longrightarrow> np_le y x \<Longrightarrow> x = y"
  by (cases x; cases y) auto

lemma foldl_max_step:
  "foldl (\<lambda>m x. if np_lt m x then x else m) y ys \<in> set (y # ys) \<and>
   (\<forall>x\<in>set (y # ys). np_le x (foldl (\<lambda>m x. if np_lt m x then x else m) y ys))"
proof (induction ys arbitrary: y)
  case Nil
  then show ?case by (simp add: np_le_refl)
next
  case (Cons z zs)
  show ?case
    using Cons.IH [of "if np_lt y z then z else y"] np_le_total [of y z]
    by (auto simp: np_lt_def intro: np_le_trans)
qed

lemma np_max_Inr:
  "xs \<noteq> [] \<Longrightarrow> \<exists>m. np_max xs = Inr m \<and> m \<in> set xs \<and> (\<forall>x\<in>set xs. np_le x m)"
  using foldl_max_step by (cases xs) (auto simp: np_max_def)

lemma np_sum_Fin_aux: "foldl fadd (Fin a) (map Fin rs) = Fin (a + sum_list rs)"
  by (induction rs arbitrary: a) (auto simp: algebra_simps)

lemma np_sum_Fin: "np_sum (map Fin rs) = Fin (sum_list rs)"
  by (simp add: np_sum_def np_sum_Fin_aux)

section \<open>The log-sum-exp of the expectation\<close>

lemma EXP_MIN_ARG_neg: "EXP_MIN_ARG < 0"
  by (simp add: EXP_MIN_ARG_def)

lemma EXP_MAX_ARG_pos: "0 < EXP_MAX_ARG"
  by (simp add: EXP_MAX_ARG_def)

lemma EXP_range [simp]:
  "\<not> 0 < EXP_MIN_ARG" "\<not> EXP_MAX_ARG < 0"
  "\<not> - 100 < EXP_MIN_ARG" "\<not> EXP_MAX_ARG < - 100"
  by (simp_all add: EXP_MIN_ARG_def EXP_MAX_ARG_def)

lemma np_exp_zero: "np_exp (Fin 0) = Fin 1"
  by simp

lemma prob_of_nonneg: "0 \<le> prob_of t"
  by (cases t) auto

lemma sum_list_prob_pos: "Fin a \<in> set ts \<Longrightarrow> 0 < sum_list (map prob_of ts)"
proof (induction ts)
  case Nil
  then show ?case by simp
next
  case (Cons t ts)
  have nn: "0 \<le> sum_list (map prob_of ts)"
    by (rule sum_list_nonneg) (auto simp: prob_of_nonneg)
  show ?case
  proof (cases "t = Fin a")
    case True
    then show ?thesis using nn by (simp add: add_pos_nonneg)
  next
    case False
    with Cons have "0 < sum_list (map prob_of ts)" by simp
    then show ?thesis using prob_of_nonneg [of t] by (simp add: add_nonneg_pos)
  qed
qed

text \<open>A term that is not above the maximum is shifted to a value that is not above 0, so
  its exponential cannot overflow: it is a real between 0 and 1, the term's probability
  divided by that of the maximum, or 0 when that quotient is below the range.\<close>

lemma exp_offset:
  "log_value t \<Longrightarrow> np_le t (Fin mr) \<Longrightarrow> np_exp (fsub t (Fin mr)) = Fin (exp_shift mr t)"
  using EXP_MAX_ARG_pos by (cases t) (auto simp: fsub_def exp_shift_def)

lemma exp_shift_nonneg: "0 \<le> exp_shift mr t"
  by (cases t) (auto simp: exp_shift_def)

lemma exp_shift_le_one: "np_le t (Fin mr) \<Longrightarrow> exp_shift mr t \<le> 1"
  by (cases t) (auto simp: exp_shift_def)

lemma exp_shift_max [simp]: "exp_shift mr (Fin mr) = 1"
  using EXP_MIN_ARG_neg by (simp add: exp_shift_def)

lemma exp_quotient: "exp a * exp (- mr) = exp (a - mr :: real)"
  by (simp add: exp_diff exp_minus divide_inverse)

lemma exp_shift_upper: "exp_shift mr t \<le> prob_of t * exp (- mr)"
  by (cases t) (auto simp: exp_shift_def exp_quotient)

lemma exp_shift_lower: "prob_of t * exp (- mr) \<le> exp_shift mr t + exp EXP_MIN_ARG"
  by (cases t) (auto simp: exp_shift_def exp_quotient)

lemma exp_shift_exact:
  "\<forall>x. t = Fin x \<longrightarrow> mr + EXP_MIN_ARG \<le> x \<Longrightarrow> exp_shift mr t = prob_of t * exp (- mr)"
  by (cases t) (auto simp: exp_shift_def exp_quotient)

lemma exp_shift_sum_nonneg: "0 \<le> sum_list (map (exp_shift mr) ts)"
  by (rule sum_list_nonneg) (auto simp: exp_shift_nonneg)

lemma exp_shift_sum_ge_one: "Fin mr \<in> set ts \<Longrightarrow> 1 \<le> sum_list (map (exp_shift mr) ts)"
proof (induction ts)
  case Nil
  then show ?case by simp
next
  case (Cons t ts)
  show ?case
  proof (cases "t = Fin mr")
    case True
    then show ?thesis using exp_shift_sum_nonneg [of mr ts] by simp
  next
    case False
    with Cons have "1 \<le> sum_list (map (exp_shift mr) ts)" by simp
    then show ?thesis using exp_shift_nonneg [of mr t] by simp
  qed
qed

lemma exp_shift_sum_le_length:
  "\<forall>t\<in>set ts. np_le t (Fin mr) \<Longrightarrow> sum_list (map (exp_shift mr) ts) \<le> real (length ts)"
proof (induction ts)
  case Nil
  then show ?case by simp
next
  case (Cons t ts)
  then have "exp_shift mr t \<le> 1" "sum_list (map (exp_shift mr) ts) \<le> real (length ts)"
    by (simp_all add: exp_shift_le_one)
  then show ?case by simp
qed

lemma exp_shift_sum_upper:
  "sum_list (map (exp_shift mr) ts) \<le> sum_list (map prob_of ts) * exp (- mr)"
proof (induction ts)
  case Nil
  then show ?case by simp
next
  case (Cons t ts)
  then show ?case using exp_shift_upper [of mr t] by (simp add: algebra_simps)
qed

lemma exp_shift_sum_lower:
  "sum_list (map prob_of ts) * exp (- mr)
     \<le> sum_list (map (exp_shift mr) ts) + real (length ts) * exp EXP_MIN_ARG"
proof (induction ts)
  case Nil
  then show ?case by simp
next
  case (Cons t ts)
  then show ?case using exp_shift_lower [of t mr] by (simp add: algebra_simps)
qed

lemma exp_shift_sum_exact:
  assumes "\<forall>x. Fin x \<in> set ts \<longrightarrow> mr + EXP_MIN_ARG \<le> x"
  shows "sum_list (map (exp_shift mr) ts) = sum_list (map prob_of ts) * exp (- mr)"
proof -
  have "map (exp_shift mr) ts = map (\<lambda>t. prob_of t * exp (- mr)) ts"
    using assms by (intro map_cong refl exp_shift_exact) auto
  then show ?thesis by (simp only: sum_list_mult_const)
qed

text \<open>With at least one finite term among finite and negative-infinite ones, the maximum
  is finite and is one of the terms, no shifted term is above 0, the shifted exponentials
  add up to a real \<open>S\<close> between 1 and the number of terms, and the logarithm of \<open>S\<close> plus
  the maximum is the logarithm of the sum of the terms' probabilities: exactly when no
  shifted exponential underflows, and from below by no more than the number of terms
  times the smallest exponential otherwise.\<close>

lemma stabilised_value:
  assumes lv: "\<forall>t\<in>set ts. log_value t" and fin: "Fin a \<in> set ts"
  shows "\<exists>mr S. np_max ts = Inr (Fin mr) \<and> Fin mr \<in> set ts \<and> (\<forall>t\<in>set ts. np_le t (Fin mr)) \<and>
           np_sum (map np_exp (map (\<lambda>t. fsub t (Fin mr)) ts)) = Fin S \<and>
           1 \<le> S \<and> S \<le> real (length ts) \<and>
           fadd (np_log (Fin S)) (Fin mr) = Fin (ln S + mr) \<and>
           ln (sum_list (map prob_of ts)) - real (length ts) * exp EXP_MIN_ARG \<le> ln S + mr \<and>
           ln S + mr \<le> ln (sum_list (map prob_of ts)) \<and>
           ((\<forall>x. Fin x \<in> set ts \<longrightarrow> mr + EXP_MIN_ARG \<le> x)
              \<longrightarrow> ln S + mr = ln (sum_list (map prob_of ts)))"
proof -
  from fin have "ts \<noteq> []" by auto
  then obtain m where m: "np_max ts = Inr m" "m \<in> set ts" "\<forall>x\<in>set ts. np_le x m"
    using np_max_Inr by blast
  from m(3) fin have "np_le (Fin a) m" by blast
  moreover from m(2) lv have "log_value m" by blast
  ultimately obtain mr where mr: "m = Fin mr" by (cases m) auto
  define S where "S = sum_list (map (exp_shift mr) ts)"
  define P where "P = sum_list (map prob_of ts)"
  define n where "n = real (length ts)"
  have "map np_exp (map (\<lambda>t. fsub t (Fin mr)) ts) = map Fin (map (exp_shift mr) ts)"
    using lv m(3) mr by (simp add: exp_offset)
  then have s: "np_sum (map np_exp (map (\<lambda>t. fsub t (Fin mr)) ts)) = Fin S"
    unfolding S_def by (simp only: np_sum_Fin)
  have S1: "1 \<le> S" unfolding S_def using m(2) mr by (intro exp_shift_sum_ge_one) simp
  have Sn: "S \<le> n" unfolding S_def n_def using m(3) mr by (intro exp_shift_sum_le_length) simp
  have up: "S \<le> P * exp (- mr)" unfolding S_def P_def by (rule exp_shift_sum_upper)
  have lo: "P * exp (- mr) \<le> S + n * exp EXP_MIN_ARG"
    unfolding S_def P_def n_def by (rule exp_shift_sum_lower)
  have P: "0 < P" unfolding P_def using fin by (rule sum_list_prob_pos)
  have lnP: "ln (P * exp (- mr)) = ln P - mr" using P by (simp add: ln_mult)
  have lg: "fadd (np_log (Fin S)) (Fin mr) = Fin (ln S + mr)" using S1 by simp
  have "ln S \<le> ln (P * exp (- mr))" using S1 up by simp
  then have upper: "ln S + mr \<le> ln P" using lnP by simp
  have eps: "0 \<le> n * exp EXP_MIN_ARG" unfolding n_def by simp
  have "0 < P * exp (- mr)" using P by simp
  then have "ln (P * exp (- mr)) \<le> ln (S + n * exp EXP_MIN_ARG)"
    using lo by simp
  also have "S + n * exp EXP_MIN_ARG = S * (1 + n * exp EXP_MIN_ARG / S)"
    using S1 by (simp add: field_simps)
  also have "ln \<dots> = ln S + ln (1 + n * exp EXP_MIN_ARG / S)"
  proof -
    have "0 \<le> n * exp EXP_MIN_ARG / S" using S1 eps by (intro divide_nonneg_pos) auto
    then have "0 < 1 + n * exp EXP_MIN_ARG / S" by simp
    moreover have "0 < S" using S1 by simp
    ultimately show ?thesis by (simp add: ln_mult_pos)
  qed
  also have "ln (1 + n * exp EXP_MIN_ARG / S) \<le> n * exp EXP_MIN_ARG / S"
    using S1 eps by (intro ln_add_one_self_le_self divide_nonneg_pos) auto
  also have "n * exp EXP_MIN_ARG / S \<le> n * exp EXP_MIN_ARG"
  proof -
    have "1 * (n * exp EXP_MIN_ARG) \<le> S * (n * exp EXP_MIN_ARG)"
      using S1 eps by (rule mult_right_mono)
    then show ?thesis using S1 by (simp add: field_simps)
  qed
  finally have lower: "ln P - n * exp EXP_MIN_ARG \<le> ln S + mr" using lnP by simp
  have exact: "ln S + mr = ln P" if "\<forall>x. Fin x \<in> set ts \<longrightarrow> mr + EXP_MIN_ARG \<le> x"
  proof -
    from that have "S = P * exp (- mr)" unfolding S_def P_def by (rule exp_shift_sum_exact)
    with lnP show ?thesis by simp
  qed
  from m mr s S1 Sn lg upper lower exact show ?thesis
    unfolding P_def n_def by blast
qed

text \<open>The engine on a support whose two arrays have one length: the stages above, on the
  array \<open>log_terms\<close>.\<close>

lemma lep_stages:
  assumes len: "length lps = length kis"
    and lv: "\<forall>t\<in>set (log_terms f lps kis). log_value t"
    and fin: "Fin a \<in> set (log_terms f lps kis)"
  shows "\<exists>mr S. broadcast_add lps (map f kis) = Inr (log_terms f lps kis) \<and>
           np_max (log_terms f lps kis) = Inr (Fin mr) \<and>
           Fin mr \<in> set (log_terms f lps kis) \<and>
           (\<forall>t\<in>set (log_terms f lps kis). np_le t (Fin mr)) \<and>
           np_sum (map np_exp (map (\<lambda>t. fsub t (Fin mr)) (log_terms f lps kis))) = Fin S \<and>
           1 \<le> S \<and> S \<le> real (length kis) \<and>
           log_expected_probability f lps kis = Inr (Fin (ln S + mr)) \<and>
           ln (sum_list (map prob_of (log_terms f lps kis)))
             - real (length kis) * exp EXP_MIN_ARG \<le> ln S + mr \<and>
           ln S + mr \<le> ln (sum_list (map prob_of (log_terms f lps kis))) \<and>
           ((\<forall>x. Fin x \<in> set (log_terms f lps kis) \<longrightarrow> mr + EXP_MIN_ARG \<le> x)
              \<longrightarrow> ln S + mr = ln (sum_list (map prob_of (log_terms f lps kis))))"
proof -
  define ts where "ts = log_terms f lps kis"
  have b: "broadcast_add lps (map f kis) = Inr ts"
    using len by (simp add: broadcast_add_def ts_def log_terms_def)
  have l: "length ts = length kis" using len by (simp add: ts_def log_terms_def)
  from stabilised_value [of ts a] lv fin obtain mr S where st:
    "np_max ts = Inr (Fin mr)" "Fin mr \<in> set ts" "\<forall>t\<in>set ts. np_le t (Fin mr)"
    "np_sum (map np_exp (map (\<lambda>t. fsub t (Fin mr)) ts)) = Fin S"
    "1 \<le> S" "S \<le> real (length ts)"
    "fadd (np_log (Fin S)) (Fin mr) = Fin (ln S + mr)"
    "ln (sum_list (map prob_of ts)) - real (length ts) * exp EXP_MIN_ARG \<le> ln S + mr"
    "ln S + mr \<le> ln (sum_list (map prob_of ts))"
    "(\<forall>x. Fin x \<in> set ts \<longrightarrow> mr + EXP_MIN_ARG \<le> x) \<longrightarrow> ln S + mr = ln (sum_list (map prob_of ts))"
    unfolding ts_def by blast
  have "log_expected_probability f lps kis = Inr (Fin (ln S + mr))"
    using b st(1) st(4) st(7) by (simp add: log_expected_probability_def)
  with b st show ?thesis unfolding l unfolding ts_def by blast
qed

text \<open>When no two finite terms are further apart than the range of the exponential, the
  value is the logarithm of the sum of the terms' probabilities.\<close>

lemma lep_value:
  assumes len: "length lps = length kis"
    and lv: "\<forall>t\<in>set (log_terms f lps kis). log_value t"
    and fin: "Fin a \<in> set (log_terms f lps kis)"
    and near: "\<forall>x y. Fin x \<in> set (log_terms f lps kis) \<and> Fin y \<in> set (log_terms f lps kis)
                 \<longrightarrow> y + EXP_MIN_ARG \<le> x"
  shows "log_expected_probability f lps kis
           = Inr (Fin (ln (sum_list (map prob_of (log_terms f lps kis)))))"
proof -
  from lep_stages [OF len lv fin] obtain mr S where
    "Fin mr \<in> set (log_terms f lps kis)"
    "log_expected_probability f lps kis = Inr (Fin (ln S + mr))"
    "(\<forall>x. Fin x \<in> set (log_terms f lps kis) \<longrightarrow> mr + EXP_MIN_ARG \<le> x)
       \<longrightarrow> ln S + mr = ln (sum_list (map prob_of (log_terms f lps kis)))"
    by blast
  with near show ?thesis by simp
qed

lemma log_value_fadd: "log_value x \<Longrightarrow> log_value y \<Longrightarrow> log_value (fadd x y)"
  by (cases x; cases y) auto

lemma prob_of_fadd: "log_value x \<Longrightarrow> log_value y \<Longrightarrow> prob_of (fadd x y) = prob_of x * prob_of y"
  by (cases x; cases y) (auto simp: exp_add)

lemma log_terms_nth:
  "length lps = length kis \<Longrightarrow> j < length kis \<Longrightarrow>
   log_terms f lps kis ! j = fadd (lps ! j) (f (kis ! j))"
  by (simp add: log_terms_def)

lemma log_terms_log_value:
  assumes len: "length lps = length kis"
    and lv: "\<forall>lp\<in>set lps. log_value lp"
    and sc: "\<forall>k\<in>set kis. log_value (f k)"
  shows "\<forall>t\<in>set (log_terms f lps kis). log_value t"
proof
  fix t assume "t \<in> set (log_terms f lps kis)"
  then obtain j where j: "j < length (log_terms f lps kis)" "log_terms f lps kis ! j = t"
    by (auto simp: in_set_conv_nth)
  from j(1) len have jl: "j < length kis" by (simp add: log_terms_def)
  with len have "lps ! j \<in> set lps" "kis ! j \<in> set kis" by auto
  with lv sc have "log_value (fadd (lps ! j) (f (kis ! j)))" by (intro log_value_fadd) auto
  with j(2) len jl show "log_value t" by (simp add: log_terms_nth)
qed

lemma log_terms_prob:
  assumes "length lps = length kis"
    and "\<forall>lp\<in>set lps. log_value lp"
    and "\<forall>k\<in>set kis. log_value (f k)"
  shows "sum_list (map prob_of (log_terms f lps kis))
           = (\<Sum>(lp, k)\<leftarrow>zip lps kis. prob_of lp * prob_of (f k))"
  using assms
proof (induction lps kis rule: list_induct2)
  case Nil
  then show ?case by (simp add: log_terms_def)
next
  case (Cons lp lps k kis)
  then show ?case by (simp add: log_terms_def prob_of_fadd)
qed

text \<open>
  Claim C2. A belief is given by its support: the keyword indices \<open>kis\<close> and, position
  by position, their log-probabilities \<open>lps\<close>, each finite or negative infinity (the
  probability zero of the notebook's full-support beliefs); the heuristic, applied to the
  clue, gives every keyword index of the support a log-likelihood \<open>f k\<close>, finite or
  negative infinity; and at least one of the summed log-terms is finite. Then the
  expectation engine goes through these stages, with these values:
  \<^item> the array \<open>log_terms\<close> is, position by position, the log-probability plus the score;
  \<^item> the value that is subtracted is finite, it is one of the log-terms and no log-term
    is above it: it is their maximum;
  \<^item> no shifted log-term is above 0, so no exponential overflows, and the exponentials of
    the shifted log-terms add up to a real \<open>S\<close> between 1 and the size of the support;
  \<^item> the engine returns the logarithm of \<open>S\<close> plus the maximum, a finite value;
  \<^item> that value is the logarithm of the sum over the support of the probability times
    the likelihood, that is of \<open>exp (log-probability + score)\<close>: exactly when no two
    finite log-terms are further apart than the range of the exponential (then no
    shifted exponential underflows), and otherwise from below by not more than the size
    of the support times the smallest exponential.

  An engine that exponentiates the log-terms without the shift returns another value:
  for two log-terms of \<open>-1000\<close> each exponential is 0 and the logarithm of their sum is
  negative infinity, where this engine returns \<open>ln 2 - 1000\<close> (the second theorem).
  Sums and logarithms are exact in the model; the exponential has the range of the
  64-bit format.
\<close>

theorem log_expected_probability_log_sum_exp:
  assumes len: "length lps = length kis"
    and lv: "\<forall>lp\<in>set lps. log_value lp"
    and sc: "\<forall>k\<in>set kis. log_value (f k)"
    and fin: "Fin a \<in> set (log_terms f lps kis)"
  shows "\<exists>m S.
           broadcast_add lps (map f kis) = Inr (log_terms f lps kis) \<and>
           (\<forall>j<length kis. log_terms f lps kis ! j = fadd (lps ! j) (f (kis ! j))) \<and>
           np_max (log_terms f lps kis) = Inr (Fin m) \<and>
           Fin m \<in> set (log_terms f lps kis) \<and>
           (\<forall>t\<in>set (log_terms f lps kis). np_le t (Fin m) \<and> np_le (fsub t (Fin m)) (Fin 0)) \<and>
           np_sum (map np_exp (map (\<lambda>t. fsub t (Fin m)) (log_terms f lps kis))) = Fin S \<and>
           1 \<le> S \<and> S \<le> real (length kis) \<and>
           log_expected_probability f lps kis = Inr (Fin (ln S + m)) \<and>
           sum_list (map prob_of (log_terms f lps kis))
             = (\<Sum>(lp, k)\<leftarrow>zip lps kis. prob_of lp * prob_of (f k)) \<and>
           ln (\<Sum>(lp, k)\<leftarrow>zip lps kis. prob_of lp * prob_of (f k))
             - real (length kis) * exp EXP_MIN_ARG \<le> ln S + m \<and>
           ln S + m \<le> ln (\<Sum>(lp, k)\<leftarrow>zip lps kis. prob_of lp * prob_of (f k)) \<and>
           ((\<forall>x y. Fin x \<in> set (log_terms f lps kis) \<and> Fin y \<in> set (log_terms f lps kis)
                \<longrightarrow> y + EXP_MIN_ARG \<le> x)
              \<longrightarrow> log_expected_probability f lps kis
                    = Inr (Fin (ln (\<Sum>(lp, k)\<leftarrow>zip lps kis. prob_of lp * prob_of (f k)))))"
proof -
  have lv': "\<forall>t\<in>set (log_terms f lps kis). log_value t"
    using len lv sc by (rule log_terms_log_value)
  have pr: "sum_list (map prob_of (log_terms f lps kis))
           = (\<Sum>(lp, k)\<leftarrow>zip lps kis. prob_of lp * prob_of (f k))"
    using len lv sc by (rule log_terms_prob)
  from lep_stages [OF len lv' fin] obtain m S where st:
    "broadcast_add lps (map f kis) = Inr (log_terms f lps kis)"
    "np_max (log_terms f lps kis) = Inr (Fin m)"
    "Fin m \<in> set (log_terms f lps kis)"
    "\<forall>t\<in>set (log_terms f lps kis). np_le t (Fin m)"
    "np_sum (map np_exp (map (\<lambda>t. fsub t (Fin m)) (log_terms f lps kis))) = Fin S"
    "1 \<le> S" "S \<le> real (length kis)"
    "log_expected_probability f lps kis = Inr (Fin (ln S + m))"
    "ln (sum_list (map prob_of (log_terms f lps kis)))
       - real (length kis) * exp EXP_MIN_ARG \<le> ln S + m"
    "ln S + m \<le> ln (sum_list (map prob_of (log_terms f lps kis)))"
    "(\<forall>x. Fin x \<in> set (log_terms f lps kis) \<longrightarrow> m + EXP_MIN_ARG \<le> x)
       \<longrightarrow> ln S + m = ln (sum_list (map prob_of (log_terms f lps kis)))"
    by blast
  have nth: "\<forall>j<length kis. log_terms f lps kis ! j = fadd (lps ! j) (f (kis ! j))"
    using len by (simp add: log_terms_nth)
  have sh: "\<forall>t\<in>set (log_terms f lps kis). np_le t (Fin m) \<and> np_le (fsub t (Fin m)) (Fin 0)"
  proof
    fix t assume t: "t \<in> set (log_terms f lps kis)"
    with st(4) have le: "np_le t (Fin m)" by blast
    moreover from t lv' have "log_value t" by blast
    ultimately have "np_le (fsub t (Fin m)) (Fin 0)" by (cases t) (auto simp: fsub_def)
    with le show "np_le t (Fin m) \<and> np_le (fsub t (Fin m)) (Fin 0)" by blast
  qed
  have ex: "(\<forall>x y. Fin x \<in> set (log_terms f lps kis) \<and> Fin y \<in> set (log_terms f lps kis)
                \<longrightarrow> y + EXP_MIN_ARG \<le> x)
       \<longrightarrow> log_expected_probability f lps kis
             = Inr (Fin (ln (\<Sum>(lp, k)\<leftarrow>zip lps kis. prob_of lp * prob_of (f k))))"
    using st(3) st(8) st(11) unfolding pr by simp
  from st(1,2,3,5,6,7,8) st(9,10) nth sh pr ex show ?thesis
    unfolding pr by blast
qed

text \<open>A belief that gives one half to each of two keywords, under a heuristic that scores
  every keyword 0: the expectation is \<open>ln (1/2 + 1/2) = 0\<close>. And two log-terms of
  \<open>-1000\<close>: the exponential of each is 0, and the engine returns \<open>ln 2 - 1000\<close>.\<close>

theorem log_expected_probability_log_sum_exp_witness:
  "length [Fin (ln (1/2)), Fin (ln (1/2))] = length [0, 1 :: nat] \<and>
   log_value (Fin (ln (1/2))) \<and> log_value (Fin 0) \<and>
   Fin (ln (1/2)) \<in> set (log_terms (\<lambda>k. Fin 0) [Fin (ln (1/2)), Fin (ln (1/2))] [0, 1]) \<and>
   log_expected_probability (\<lambda>k. Fin 0) [Fin (ln (1/2)), Fin (ln (1/2))] [0, 1] = Inr (Fin 0) \<and>
   np_exp (Fin (- 1000)) = Fin 0 \<and>
   log_expected_probability (\<lambda>k. Fin 0) [Fin (- 1000), Fin (- 1000)] [0, 1]
     = Inr (Fin (ln 2 - 1000))"
  using log_expected_probability_log_sum_exp [of "[Fin (ln (1/2)), Fin (ln (1/2))]" "[0, 1]"
      "\<lambda>k. Fin 0" "ln (1/2)"]
  by (simp add: log_terms_def log_expected_probability_def broadcast_add_def np_max_def
      np_sum_def fsub_def np_lt_def EXP_MIN_ARG_def EXP_MAX_ARG_def)

section \<open>The arg-max and the first maximal code\<close>

lemma np_lt_imp_le: "np_lt x y \<Longrightarrow> np_le x y"
  using np_le_total [of x y] by (auto simp: np_lt_def)

lemma np_lt_trans: "np_lt x y \<Longrightarrow> np_lt y z \<Longrightarrow> np_lt x z"
  unfolding np_lt_def using np_le_trans np_le_total by blast

lemma np_le_lt_trans: "np_le x y \<Longrightarrow> np_lt y z \<Longrightarrow> np_lt x z"
  unfolding np_lt_def using np_le_trans by blast

lemma argmax_scan_spec:
  "(argmax_scan xs i best m = best \<and> (\<forall>x\<in>set xs. np_le x m)) \<or>
   (i \<le> argmax_scan xs i best m \<and> argmax_scan xs i best m < i + length xs \<and>
    np_lt m (xs ! (argmax_scan xs i best m - i)) \<and>
    (\<forall>j<argmax_scan xs i best m - i. np_lt (xs ! j) (xs ! (argmax_scan xs i best m - i))) \<and>
    (\<forall>x\<in>set xs. np_le x (xs ! (argmax_scan xs i best m - i))))"
proof (induction xs arbitrary: i best m)
  case Nil
  then show ?case by simp
next
  case (Cons x xs)
  show ?case
  proof (cases "np_lt m x")
    case True
    let ?r = "argmax_scan xs (Suc i) i x"
    have r: "argmax_scan (x # xs) i best m = ?r" using True by simp
    from Cons.IH [of "Suc i" i x] consider
      (stay) "?r = i" "\<forall>y\<in>set xs. np_le y x"
      | (move) "Suc i \<le> ?r" "?r < Suc i + length xs" "np_lt x (xs ! (?r - Suc i))"
          "\<forall>j<?r - Suc i. np_lt (xs ! j) (xs ! (?r - Suc i))"
          "\<forall>y\<in>set xs. np_le y (xs ! (?r - Suc i))"
      by blast
    then show ?thesis
    proof cases
      case stay
      then show ?thesis unfolding r using True by (simp add: np_le_refl)
    next
      case move
      then obtain d where d: "?r - i = Suc d" "?r - Suc i = d"
        by (metis Suc_le_lessD Suc_diff_Suc Suc_le_eq)
      have "np_lt m (xs ! d)" using True move(3) d np_lt_trans by metis
      moreover have "\<forall>j<Suc d. np_lt ((x # xs) ! j) (xs ! d)"
        using move(3,4) d by (auto simp: nth_Cons split: nat.splits)
      moreover have "\<forall>y\<in>set (x # xs). np_le y (xs ! d)"
        using move(3,5) d np_lt_imp_le by auto
      ultimately show ?thesis unfolding r using move(1,2) d by auto
    qed
  next
    case False
    let ?r = "argmax_scan xs (Suc i) best m"
    have r: "argmax_scan (x # xs) i best m = ?r" using False by simp
    from False have xm: "np_le x m" by (simp add: np_lt_def)
    from Cons.IH [of "Suc i" best m] consider
      (stay) "?r = best" "\<forall>y\<in>set xs. np_le y m"
      | (move) "Suc i \<le> ?r" "?r < Suc i + length xs" "np_lt m (xs ! (?r - Suc i))"
          "\<forall>j<?r - Suc i. np_lt (xs ! j) (xs ! (?r - Suc i))"
          "\<forall>y\<in>set xs. np_le y (xs ! (?r - Suc i))"
      by blast
    then show ?thesis
    proof cases
      case stay
      then show ?thesis unfolding r using xm by simp
    next
      case move
      then obtain d where d: "?r - i = Suc d" "?r - Suc i = d"
        by (metis Suc_le_lessD Suc_diff_Suc Suc_le_eq)
      have xd: "np_lt x (xs ! d)" using xm move(3) d np_le_lt_trans by metis
      have "\<forall>j<Suc d. np_lt ((x # xs) ! j) (xs ! d)"
        using xd move(4) d by (auto simp: nth_Cons split: nat.splits)
      moreover have "\<forall>y\<in>set (x # xs). np_le y (xs ! d)"
        using xd move(5) d np_lt_imp_le by auto
      ultimately show ?thesis unfolding r using move(1,2,3) d by auto
    qed
  qed
qed

lemma np_argmax_first_maximal:
  assumes "xs \<noteq> []"
  shows "\<exists>i. np_argmax xs = Inr i \<and> i < length xs \<and>
           (\<forall>j<length xs. np_le (xs ! j) (xs ! i)) \<and> (\<forall>j<i. np_lt (xs ! j) (xs ! i))"
proof -
  from assms obtain y ys where xs: "xs = y # ys" by (cases xs) auto
  let ?r = "argmax_scan ys 1 0 y"
  have r: "np_argmax xs = Inr ?r" by (simp add: xs np_argmax_def)
  from argmax_scan_spec [of ys 1 0 y] consider
    (stay) "?r = 0" "\<forall>x\<in>set ys. np_le x y"
    | (move) "1 \<le> ?r" "?r < 1 + length ys" "np_lt y (ys ! (?r - 1))"
        "\<forall>j<?r - 1. np_lt (ys ! j) (ys ! (?r - 1))"
        "\<forall>x\<in>set ys. np_le x (ys ! (?r - 1))"
    by auto
  then show ?thesis
  proof cases
    case stay
    have "\<forall>j<length xs. np_le (xs ! j) (xs ! 0)"
      using stay(2) by (auto simp: xs nth_Cons np_le_refl split: nat.splits)
    then show ?thesis using r stay(1) by (simp add: xs)
  next
    case move
    then obtain d where d: "?r = Suc d" by (cases ?r) auto
    have "\<forall>j<length xs. np_le (xs ! j) (ys ! d)"
      using move(3,5) d np_lt_imp_le by (auto simp: xs nth_Cons split: nat.splits)
    moreover have "\<forall>j<Suc d. np_lt (xs ! j) (ys ! d)"
      using move(3,4) d by (auto simp: xs nth_Cons split: nat.splits)
    ultimately show ?thesis using r move(2) d by (auto simp: xs)
  qed
qed

text \<open>
  Claim C6. For every non-empty vector of log-scores, aligned with the enumeration of the
  codes, the guess is the code at a position whose score is maximal and strictly above
  the score of every earlier position: when several codes attain the maximal log-score,
  the one that comes first in the enumeration is returned. (NaN counts as the largest
  value, as \<^verbatim>\<open>np.argmax\<close> has it.) The enumeration \<^verbatim>\<open>ALL_CODES\<close> is in
  lexicographic order, see \<open>ALL_CODES_lexicographic\<close>.
\<close>

theorem guess_first_maximal:
  assumes "log_expectations \<noteq> []" and "length codes = length log_expectations"
  shows "\<exists>i. guess codes log_expectations = Inr (codes ! i) \<and> i < length codes \<and>
           (\<forall>j<length codes. np_le (log_expectations ! j) (log_expectations ! i)) \<and>
           (\<forall>j<i. np_lt (log_expectations ! j) (log_expectations ! i))"
  using np_argmax_first_maximal [OF assms(1)] assms(2) by (auto simp: guess_def)

text \<open>Two codes tie at the maximal score 0: the earlier of the two is the guess.\<close>

theorem guess_first_maximal_witness:
  "[Fin (- 100), Fin 0, Fin 0] \<noteq> [] \<and>
   length [[0, 1, 2], [0, 1, 3], [0, 2, 1 :: nat]] = length [Fin (- 100), Fin 0, Fin 0] \<and>
   guess [[0, 1, 2], [0, 1, 3], [0, 2, 1]] [Fin (- 100), Fin 0, Fin 0] = Inr [0, 1, 3]"
  using guess_first_maximal [of "[Fin (- 100), Fin 0, Fin 0]" "[[0, 1, 2], [0, 1, 3], [0, 2, 1]]"]
  by (simp add: guess_def np_argmax_def np_lt_def)

section \<open>The enumeration of the codes\<close>

lemma all_codes: "ALL_CODES = [[0,1,2],[0,1,3],[0,2,1],[0,2,3],[0,3,1],[0,3,2],
  [1,0,2],[1,0,3],[1,2,0],[1,2,3],[1,3,0],[1,3,2],
  [2,0,1],[2,0,3],[2,1,0],[2,1,3],[2,3,0],[2,3,1],
  [3,0,1],[3,0,2],[3,1,0],[3,1,2],[3,2,0],[3,2,1]]"
  unfolding ALL_CODES_def by code_simp

lemma ALL_CODES_lexicographic:
  "sorted_wrt (\<lambda>a b. (a, b) \<in> lexord {(x, y). x < y}) ALL_CODES"
  by (simp add: all_codes)

section \<open>The scores of the codes\<close>

lemma rectangularI: "(\<forall>x\<in>set rows. length x = K) \<Longrightarrow> rectangular rows"
  by (cases rows) (auto simp: rectangular_def list_all_iff)

lemma lep_total:
  "length lps = length kis \<Longrightarrow> kis \<noteq> [] \<Longrightarrow> \<exists>v. log_expected_probability f lps kis = Inr v"
  using np_max_Inr [of "map2 fadd lps (map f kis)"]
  by (cases lps; cases kis) (auto simp: log_expected_probability_def broadcast_add_def)

lemma expectation_matrix_Inr_iff:
  "expectation_matrix func rvs clues = Inr m \<longleftrightarrow>
     length m = length rvs \<and>
     (\<forall>r<length rvs. length (m ! r) = length clues \<and>
        (\<forall>c<length clues. log_expected_probability (func (clues ! c))
            (log_probabilities (rvs ! r)) (keyword_indices (rvs ! r)) = Inr (m ! r ! c)))"
  by (simp add: expectation_matrix_def traverse_Inr_iff)

lemma expectation_matrix_total:
  assumes "0 < K"
    and "\<forall>rv\<in>set rvs. length (log_probabilities rv) = K \<and> length (keyword_indices rv) = K"
  shows "\<exists>m. expectation_matrix func rvs clues = Inr m"
  unfolding expectation_matrix_def
proof (rule traverse_total)
  fix rv assume "rv \<in> set rvs"
  with assms have "length (log_probabilities rv) = length (keyword_indices rv)"
    "keyword_indices rv \<noteq> []" by auto
  then show "\<exists>y. traverse (\<lambda>c. log_expected_probability (func c) (log_probabilities rv)
      (keyword_indices rv)) clues = Inr y"
    by (intro traverse_total lep_total)
qed

lemma codes_total:
  assumes "rvs \<noteq> []" and "0 < K"
    and "\<forall>rv\<in>set rvs. length (log_probabilities rv) = K \<and> length (keyword_indices rv) = K"
    and "\<forall>c\<in>set codes. \<forall>s\<in>set c. s < length rvs"
  shows "\<exists>m result. expectation_matrix func rvs clues = Inr m \<and>
           log_expected_probabilities_codes func rvs clues codes = Inr result \<and>
           length result = length codes"
proof -
  from assms obtain m where m: "expectation_matrix func rvs clues = Inr m"
    using expectation_matrix_total [of K rvs func clues] by blast
  then have len: "length m = length rvs" by (simp add: expectation_matrix_Inr_iff)
  have rect: "rectangular (map log_probabilities rvs)" "rectangular (map keyword_indices rvs)"
    using assms(3) by (auto intro!: rectangularI [where K = K])
  have ix: "\<not> list_ex (list_ex (\<lambda>s. length m \<le> s)) codes"
    using assms(4) len by (fastforce simp: list_ex_iff not_le)
  from assms(1) have "hd rvs \<in> set rvs" by simp
  with assms(3) have hd: "length (log_probabilities (hd rvs)) = K"
    "length (keyword_indices (hd rvs)) = K" by auto
  show ?thesis
  proof (cases "clues = []")
    case True
    then show ?thesis
      using assms(1,2) rect m hd
      by (simp add: log_expected_probabilities_codes_def broadcast_length_def)
  next
    case False
    then show ?thesis
      using assms(1) rect ix m by (simp add: log_expected_probabilities_codes_def)
  qed
qed

text \<open>
  Claim C1. Take at least one belief and a clue of at least one word. Whenever the
  decoder returns a vector of log-scores, there is the matrix of log expectations, with
  one row for each belief and one column for each clue position, whose entry at
  (slot, clue position) is what the expectation engine returns for that belief and that
  clue; the vector has one score for each code of the enumeration, in the order of the
  enumeration; every slot that a code names is the slot of a belief; and the score of
  the code \<open>(s\<^sub>1, \<dots>, s\<^sub>L)\<close> is the sum over the positions \<open>i\<close> of the matrix entries at
  \<open>(s\<^sub>i, i)\<close> (the positions that both the code and the clue have: all of them when the
  clue has one word for each digit of the code).
  In every case the vector that the decoder returns has one score for each code, in the
  order of the enumeration; with no belief or with no clue the matrix has no entry and
  every score is the empty sum, 0.
  The decoder does return a vector when there is a belief, all the supports have one
  common positive size, and every slot named by a code is the slot of a belief.
\<close>

theorem log_expected_probabilities_codes_trace:
  "(rvs \<noteq> [] \<and> clues \<noteq> [] \<and>
    log_expected_probabilities_codes func rvs clues codes = Inr scores \<longrightarrow>
      (\<exists>m. expectation_matrix func rvs clues = Inr m \<and> length m = length rvs \<and>
         (\<forall>r<length rvs. length (m ! r) = length clues \<and>
            (\<forall>c<length clues. log_expected_probability (func (clues ! c))
                (log_probabilities (rvs ! r)) (keyword_indices (rvs ! r)) = Inr (m ! r ! c))) \<and>
         length scores = length codes \<and>
         (\<forall>n<length codes. (\<forall>s\<in>set (codes ! n). s < length rvs) \<and>
            scores ! n = np_sum (map (\<lambda>i. m ! (codes ! n ! i) ! i)
                                     [0..<min (length (codes ! n)) (length clues)])))) \<and>
   (log_expected_probabilities_codes func rvs clues codes = Inr scores \<longrightarrow>
      length scores = length codes \<and>
      (rvs = [] \<or> clues = [] \<longrightarrow> (\<forall>n<length codes. scores ! n = Fin 0))) \<and>
   (rvs \<noteq> [] \<and> 0 < K \<and>
    (\<forall>rv\<in>set rvs. length (log_probabilities rv) = K \<and> length (keyword_indices rv) = K) \<and>
    (\<forall>c\<in>set codes. \<forall>s\<in>set c. s < length rvs) \<longrightarrow>
      (\<exists>result. log_expected_probabilities_codes func rvs clues codes = Inr result))"
proof -
  have p1: "\<exists>m. expectation_matrix func rvs clues = Inr m \<and> length m = length rvs \<and>
         (\<forall>r<length rvs. length (m ! r) = length clues \<and>
            (\<forall>c<length clues. log_expected_probability (func (clues ! c))
                (log_probabilities (rvs ! r)) (keyword_indices (rvs ! r)) = Inr (m ! r ! c))) \<and>
         length scores = length codes \<and>
         (\<forall>n<length codes. (\<forall>s\<in>set (codes ! n). s < length rvs) \<and>
            scores ! n = np_sum (map (\<lambda>i. m ! (codes ! n ! i) ! i)
                                     [0..<min (length (codes ! n)) (length clues)]))"
    if a: "rvs \<noteq> [] \<and> clues \<noteq> [] \<and>
           log_expected_probabilities_codes func rvs clues codes = Inr scores"
  proof -
    from a obtain m where m: "expectation_matrix func rvs clues = Inr m"
      and ix: "\<not> list_ex (list_ex (\<lambda>s. length m \<le> s)) codes"
      and sc: "scores = map (\<lambda>c. np_sum (map (\<lambda>i. m ! (c ! i) ! i)
                                            [0..<min (length c) (length clues)])) codes"
      by (auto simp: log_expected_probabilities_codes_def split: if_splits sum.splits)
    from m have shape: "length m = length rvs"
      "\<forall>r<length rvs. length (m ! r) = length clues \<and>
          (\<forall>c<length clues. log_expected_probability (func (clues ! c))
              (log_probabilities (rvs ! r)) (keyword_indices (rvs ! r)) = Inr (m ! r ! c))"
      by (simp_all add: expectation_matrix_Inr_iff)
    from ix shape(1) have "\<forall>n<length codes. \<forall>s\<in>set (codes ! n). s < length rvs"
      by (auto simp: list_ex_iff not_le)
    moreover from sc have "length scores = length codes" by simp
    moreover from sc have "\<forall>n<length codes. scores ! n
        = np_sum (map (\<lambda>i. m ! (codes ! n ! i) ! i) [0..<min (length (codes ! n)) (length clues)])"
      by simp
    ultimately show ?thesis using m shape by blast
  qed
  have p2: "length scores = length codes \<and>
      (rvs = [] \<or> clues = [] \<longrightarrow> (\<forall>n<length codes. scores ! n = Fin 0))"
    if b: "log_expected_probabilities_codes func rvs clues codes = Inr scores"
  proof (cases "rvs = [] \<or> clues = []")
    case True
    with b have "scores = map (\<lambda>c. Fin 0) codes"
      by (auto simp: log_expected_probabilities_codes_def split: if_splits sum.splits)
    then show ?thesis by simp
  next
    case False
    with b p1 show ?thesis by blast
  qed
  have p3: "\<exists>result. log_expected_probabilities_codes func rvs clues codes = Inr result"
    if c: "rvs \<noteq> [] \<and> 0 < K \<and>
      (\<forall>rv\<in>set rvs. length (log_probabilities rv) = K \<and> length (keyword_indices rv) = K) \<and>
      (\<forall>c\<in>set codes. \<forall>s\<in>set c. s < length rvs)"
    using codes_total [of rvs K codes func clues] c by blast
  from p1 p2 p3 show ?thesis by blast
qed

section \<open>Certain beliefs and the naive heuristic\<close>

lemma guesser_random_variables_certain:
  "traverse (lookup_word word_index) kcard = Inr kws \<Longrightarrow>
   guesser_random_variables kcard word_index = Inr (map certain kws)"
  unfolding guesser_random_variables_def
proof (induction kcard arbitrary: kws)
  case Nil
  then show ?case by auto
next
  case (Cons w ws)
  then show ?case by (auto simp: certain_def split: sum.splits)
qed

lemma clue_lookup:
  assumes "traverse (lookup_word word_index) kcard = Inr kws"
    and "\<forall>s\<in>set c. s < length kcard"
  shows "traverse (lookup_word word_index) (map (\<lambda>s. kcard ! s) c) = Inr (map (\<lambda>s. kws ! s) c)"
  using assms by (simp add: traverse_Inr_iff)

lemma lep_certain:
  "log_expected_probability (naive_clue_and_keyword_log_prob cl) [Fin 0] [k]
     = Inr (Fin (if k = cl then 0 else - 100))"
  by (simp add: log_expected_probability_def broadcast_add_def np_max_def np_sum_def fsub_def
      naive_clue_and_keyword_log_prob_def LOG_PROB_ZERO_def)

lemma expectation_matrix_certain:
  "expectation_matrix naive_clue_and_keyword_log_prob (map certain kws) clues
     = Inr (map (\<lambda>k. map (\<lambda>cl. Fin (if k = cl then 0 else - 100)) clues) kws)"
  unfolding expectation_matrix_def
  by (induction kws) (simp_all add: certain_def lep_certain traverse_map)

lemma codes_certain:
  assumes "kws \<noteq> []" and "\<forall>c'\<in>set codes. \<forall>s\<in>set c'. s < length kws"
  shows "log_expected_probabilities_codes naive_clue_and_keyword_log_prob (map certain kws) clues codes
     = Inr (map (\<lambda>c'. Fin (\<Sum>i\<leftarrow>[0..<min (length c') (length clues)].
                               if kws ! (c' ! i) = clues ! i then 0 else - 100)) codes)"
proof -
  have rect: "rectangular (map log_probabilities (map certain kws))"
    "rectangular (map keyword_indices (map certain kws))"
    by (auto intro!: rectangularI [where K = 1] simp: certain_def)
  have ix: "\<not> list_ex (list_ex (\<lambda>s. length kws \<le> s)) codes"
    using assms(2) by (fastforce simp: list_ex_iff not_le)
  have "np_sum (map (\<lambda>i. map (\<lambda>k. map (\<lambda>cl. Fin (if k = cl then 0 else - 100)) clues) kws
                        ! (c' ! i) ! i) [0..<min (length c') (length clues)])
      = Fin (\<Sum>i\<leftarrow>[0..<min (length c') (length clues)].
               if kws ! (c' ! i) = clues ! i then 0 else - 100)"
    if "c' \<in> set codes" for c'
  proof -
    have "map (\<lambda>i. map (\<lambda>k. map (\<lambda>cl. Fin (if k = cl then 0 else - 100)) clues) kws
                        ! (c' ! i) ! i) [0..<min (length c') (length clues)]
        = map Fin (map (\<lambda>i. if kws ! (c' ! i) = clues ! i then 0 else - 100)
                     [0..<min (length c') (length clues)])"
      using that assms(2) by auto
    then show ?thesis by (simp only: np_sum_Fin)
  qed
  then have general: "clues \<noteq> [] \<Longrightarrow> ?thesis"
    using assms(1) rect ix
    by (simp add: log_expected_probabilities_codes_def expectation_matrix_certain cong: map_cong)
  have "hd (map certain kws) = certain (hd kws)" using assms(1) by (simp add: hd_map)
  then have empty: "clues = [] \<Longrightarrow> ?thesis"
    using assms(1) rect
    by (simp add: log_expected_probabilities_codes_def broadcast_length_def certain_def)
  from general empty show ?thesis by blast
qed

text \<open>The notebook's run: the keyword card, the clue and the vector of log expectations
  that the notebook prints.\<close>

lemma notebook_clue_indices: "clue_indices = Inr [0, 3, 1]"
  by (simp add: clue_indices_def naive_clue_def keyword_card_def code_def ALL_WORDS_def
      ALL_WORD_INDEX_def lookup_word_def)

lemma notebook_keyword_card:
  "traverse (lookup_word ALL_WORD_INDEX) keyword_card = Inr [1, 0, 2, 3]"
  by (simp add: keyword_card_def ALL_WORDS_def ALL_WORD_INDEX_def lookup_word_def)

lemma notebook_log_expectations:
  "log_expected_probabilities_codes naive_clue_and_keyword_log_prob
     [certain 1, certain 0, certain 2, certain 3] [0, 3, 1] ALL_CODES
   = Inr (map Fin [- 300, - 300, - 300, - 300, - 200, - 200, - 200, - 200, - 100, - 200, 0, - 100,
                   - 300, - 300, - 200, - 300, - 100, - 200, - 300, - 300, - 200, - 300, - 200, - 300])"
  using codes_certain [of "[1, 0, 2, 3]" ALL_CODES "[0, 3, 1]"]
  by (simp add: all_codes)

lemma notebook_guess:
  "guess ALL_CODES
     (map Fin [- 300, - 300, - 300, - 300, - 200, - 200, - 200, - 200, - 100, - 200, 0, - 100,
               - 300, - 300, - 200, - 300, - 100, - 200, - 300, - 300, - 200, - 300, - 200, - 300])
   = Inr [1, 3, 0]"
  by (simp add: guess_def np_argmax_def np_lt_def all_codes)

text \<open>The notebook's run as an instance of claim C1: the score of the code \<open>(1, 3, 0)\<close>,
  at position 10 of the enumeration, is the sum of the matrix entries at \<open>(1, 0)\<close>,
  \<open>(3, 1)\<close> and \<open>(0, 2)\<close>. With no belief and a clue of one word, and with the
  notebook's beliefs and no clue, each of the 24 codes scores 0.\<close>

theorem log_expected_probabilities_codes_trace_witness:
  "log_expected_probabilities_codes naive_clue_and_keyword_log_prob
     [certain 1, certain 0, certain 2, certain 3] [0, 3, 1] ALL_CODES
   = Inr (map Fin [- 300, - 300, - 300, - 300, - 200, - 200, - 200, - 200, - 100, - 200, 0, - 100,
                   - 300, - 300, - 200, - 300, - 100, - 200, - 300, - 300, - 200, - 300, - 200, - 300])
   \<and> (\<exists>m. expectation_matrix naive_clue_and_keyword_log_prob
              [certain 1, certain 0, certain 2, certain 3] [0, 3, 1] = Inr m \<and>
            length m = 4 \<and> Fin 0 = np_sum [m ! 1 ! 0, m ! 3 ! 1, m ! 0 ! 2])
   \<and> (\<exists>result. log_expected_probabilities_codes naive_clue_and_keyword_log_prob
              [certain 1, certain 0, certain 2, certain 3] [0, 3, 1] ALL_CODES = Inr result)
   \<and> log_expected_probabilities_codes naive_clue_and_keyword_log_prob [] [0] ALL_CODES
       = Inr (map (\<lambda>c. Fin 0) ALL_CODES)
   \<and> log_expected_probabilities_codes naive_clue_and_keyword_log_prob
         [certain 1, certain 0, certain 2, certain 3] [] ALL_CODES
       = Inr (map (\<lambda>c. Fin 0) ALL_CODES)"
proof -
  let ?rvs = "[certain 1, certain 0, certain 2, certain 3]"
  let ?scores = "map Fin [- 300, - 300, - 300, - 300, - 200, - 200, - 200, - 200, - 100, - 200, 0,
     - 100, - 300, - 300, - 200, - 300, - 100, - 200, - 300, - 300, - 200, - 300, - 200, - 300]"
  note t = log_expected_probabilities_codes_trace
    [where func = naive_clue_and_keyword_log_prob and rvs = ?rvs and clues = "[0, 3, 1]"
       and codes = ALL_CODES and scores = ?scores and K = 1]
  have e: "log_expected_probabilities_codes naive_clue_and_keyword_log_prob ?rvs [0, 3, 1]
      ALL_CODES = Inr ?scores"
    by (rule notebook_log_expectations)
  have ne: "?rvs \<noteq> []" "[0, 3, 1 :: nat] \<noteq> []" by simp_all
  with t e obtain m where m: "expectation_matrix naive_clue_and_keyword_log_prob ?rvs [0, 3, 1] = Inr m"
    "length m = length ?rvs"
    "\<forall>n<length ALL_CODES. (\<forall>s\<in>set (ALL_CODES ! n). s < length ?rvs) \<and>
        ?scores ! n = np_sum (map (\<lambda>i. m ! (ALL_CODES ! n ! i) ! i)
                                 [0..<min (length (ALL_CODES ! n)) (length [0, 3, 1 :: nat])])"
    by blast
  have "10 < length ALL_CODES" by (simp add: all_codes)
  with m(3) have "?scores ! 10 = np_sum (map (\<lambda>i. m ! (ALL_CODES ! 10 ! i) ! i)
                                 [0..<min (length (ALL_CODES ! 10)) (length [0, 3, 1 :: nat])])"
    by blast
  then have "Fin 0 = np_sum [m ! 1 ! 0, m ! 3 ! 1, m ! 0 ! 2]"
    by (simp add: all_codes upt_rec numeral_2_eq_2)
  with m(1,2) have 2: "\<exists>m. expectation_matrix naive_clue_and_keyword_log_prob ?rvs [0, 3, 1] = Inr m \<and>
            length m = 4 \<and> Fin 0 = np_sum [m ! 1 ! 0, m ! 3 ! 1, m ! 0 ! 2]"
    by auto
  have "?rvs \<noteq> [] \<and> 0 < (1::nat) \<and>
    (\<forall>rv\<in>set ?rvs. length (log_probabilities rv) = 1 \<and> length (keyword_indices rv) = 1) \<and>
    (\<forall>c\<in>set ALL_CODES. \<forall>s\<in>set c. s < length ?rvs)"
    by (simp add: certain_def all_codes)
  with t have 3: "\<exists>result. log_expected_probabilities_codes naive_clue_and_keyword_log_prob ?rvs
      [0, 3, 1] ALL_CODES = Inr result"
    by blast
  have 4: "log_expected_probabilities_codes naive_clue_and_keyword_log_prob [] [0] ALL_CODES
       = Inr (map (\<lambda>c. Fin 0) ALL_CODES)"
    by (simp add: log_expected_probabilities_codes_def)
  have 5: "log_expected_probabilities_codes naive_clue_and_keyword_log_prob ?rvs [] ALL_CODES
       = Inr (map (\<lambda>c. Fin 0) ALL_CODES)"
    by (simp add: log_expected_probabilities_codes_def certain_def rectangular_def
        broadcast_length_def)
  from e 2 3 4 5 show ?thesis by blast
qed

section \<open>The round trip\<close>

lemma mismatch_sum_nonpos:
  "(\<Sum>i\<leftarrow>is. if P i then 0 else - 100 :: real) \<le> 0"
  by (induction "is") auto

lemma mismatch_sum_zero_iff:
  "(\<Sum>i\<leftarrow>is. if P i then 0 else - 100 :: real) = 0 \<longleftrightarrow> (\<forall>i\<in>set is. P i)"
proof (induction "is")
  case Nil
  then show ?case by simp
next
  case (Cons i "is")
  have "(\<Sum>i\<leftarrow>is. if P i then 0 else - 100 :: real) \<le> 0" by (rule mismatch_sum_nonpos)
  with Cons show ?case by auto
qed

lemma round_trip_scores:
  assumes dist: "distinct kws"
    and c: "\<forall>s\<in>set c. s < length kws"
    and c': "\<forall>s\<in>set c'. s < length kws" "length c' = length c"
  shows "(\<Sum>i\<leftarrow>[0..<min (length c') (length (map (\<lambda>s. kws ! s) c))].
            if kws ! (c' ! i) = map (\<lambda>s. kws ! s) c ! i then 0 else - 100 :: real) = 0
         \<longleftrightarrow> c' = c"
proof -
  let ?P = "\<lambda>i. kws ! (c' ! i) = map (\<lambda>s. kws ! s) c ! i"
  have p: "?P i = (c' ! i = c ! i)" if "i < length c" for i
  proof -
    from that c have "c ! i < length kws" by simp
    moreover from that c' have "c' ! i < length kws" by simp
    ultimately show ?thesis using that dist by (simp add: nth_eq_iff_index_eq)
  qed
  have m: "min (length c') (length (map (\<lambda>s. kws ! s) c)) = length c"
    using c'(2) by simp
  have "((\<Sum>i\<leftarrow>[0..<length c]. if ?P i then 0 else - 100 :: real) = 0)
      = (\<forall>i\<in>set [0..<length c]. ?P i)"
    by (rule mismatch_sum_zero_iff)
  also have "\<dots> = (\<forall>i<length c. c' ! i = c ! i)"
    using p by auto
  also have "\<dots> = (c' = c)"
    using c'(2) by (simp add: list_eq_iff_nth_eq)
  finally show ?thesis unfolding m .
qed

text \<open>
  Claim C5, for a card without a repeated keyword. A keyword card of words of the
  vocabulary, with pairwise different keywords (their indices \<open>kws\<close> are distinct), gets
  a certain belief for every slot. For every code \<open>c\<close> of the code space (any
  enumeration of codes of one length over the slots of the card), the clue formed by
  reading the keywords at the slots of \<open>c\<close> is decoded, under the naive heuristic, to
  \<open>c\<close> itself: the log-score of \<open>c\<close> is 0 and the log-score of every other code is
  strictly below 0. The instance of the notebook (card CAT, BOAT, RUM, DRAG; clue
  indices 0, 3, 1; best code 1, 3, 0) follows it, and \<open>notebook_log_expectations\<close>
  lists the 24 scores.
\<close>

theorem certain_beliefs_round_trip:
  assumes card: "traverse (lookup_word word_index) kcard = Inr kws"
    and dist: "distinct kws"
    and ne: "kcard \<noteq> []"
    and mem: "c \<in> set codes"
    and codes: "\<forall>c'\<in>set codes. length c' = length c \<and> (\<forall>s\<in>set c'. s < length kcard)"
  shows "\<exists>rvs clues scores.
           guesser_random_variables kcard word_index = Inr rvs \<and>
           traverse (lookup_word word_index) (map (\<lambda>s. kcard ! s) c) = Inr clues \<and>
           log_expected_probabilities_codes naive_clue_and_keyword_log_prob rvs clues codes
             = Inr scores \<and>
           length scores = length codes \<and>
           guess codes scores = Inr c \<and>
           (\<forall>n<length codes. if codes ! n = c then scores ! n = Fin 0
                               else np_lt (scores ! n) (Fin 0))"
proof -
  let ?clues = "map (\<lambda>s. kws ! s) c"
  let ?score = "\<lambda>c'. \<Sum>i\<leftarrow>[0..<min (length c') (length ?clues)].
                         if kws ! (c' ! i) = ?clues ! i then 0 else - 100 :: real"
  let ?scores = "map (\<lambda>c'. Fin (?score c')) codes"
  from card have len: "length kws = length kcard" by (simp add: traverse_Inr_iff)
  from mem codes have cin: "\<forall>s\<in>set c. s < length kcard" by blast
  from len ne have kne: "kws \<noteq> []" by auto
  have cin': "\<forall>s\<in>set c. s < length kws" using cin len by simp
  have rvs: "guesser_random_variables kcard word_index = Inr (map certain kws)"
    using card by (rule guesser_random_variables_certain)
  have clues: "traverse (lookup_word word_index) (map (\<lambda>s. kcard ! s) c) = Inr ?clues"
    using card cin by (rule clue_lookup)
  have ix: "\<forall>c'\<in>set codes. \<forall>s\<in>set c'. s < length kws" using codes len by simp
  have sc: "log_expected_probabilities_codes naive_clue_and_keyword_log_prob (map certain kws)
      ?clues codes = Inr ?scores"
    using kne ix by (rule codes_certain)
  have zero: "?score c' = 0 \<longleftrightarrow> c' = c" if "c' \<in> set codes" for c'
    using round_trip_scores [OF dist cin', of c'] that codes len by simp
  have nonpos: "?score c' \<le> 0" for c' by (rule mismatch_sum_nonpos)
  define scores where "scores = map (\<lambda>c'. Fin (?score c')) codes"
  have lens: "length scores = length codes" by (simp add: scores_def)
  have each: "\<forall>n<length codes. if codes ! n = c then scores ! n = Fin 0
                               else np_lt (scores ! n) (Fin 0)"
  proof (intro allI impI)
    fix n assume n: "n < length codes"
    then have "codes ! n \<in> set codes" by simp
    from zero [OF this] nonpos [of "codes ! n"] n
    show "if codes ! n = c then scores ! n = Fin 0 else np_lt (scores ! n) (Fin 0)"
      by (auto simp: np_lt_def scores_def)
  qed
  have "scores \<noteq> []" using mem lens by auto
  from np_argmax_first_maximal [OF this] obtain i where
    i: "np_argmax scores = Inr i" "i < length scores"
      "\<forall>j<length scores. np_le (scores ! j) (scores ! i)"
    by auto
  from mem obtain n0 where n0: "n0 < length codes" "codes ! n0 = c"
    by (auto simp: in_set_conv_nth)
  with each have "scores ! n0 = Fin 0" by auto
  moreover from i(3) n0(1) lens have "np_le (scores ! n0) (scores ! i)" by simp
  ultimately have "np_le (Fin 0) (scores ! i)" by simp
  moreover from each i(2) lens have "codes ! i \<noteq> c \<longrightarrow> np_lt (scores ! i) (Fin 0)" by auto
  ultimately have "codes ! i = c" by (auto simp: np_lt_def)
  with i lens have g: "guess codes scores = Inr c" by (simp add: guess_def)
  from sc have sc': "log_expected_probabilities_codes naive_clue_and_keyword_log_prob
      (map certain kws) ?clues codes = Inr scores" by (simp only: scores_def)
  from rvs clues sc' lens g each show ?thesis by blast
qed

theorem certain_beliefs_round_trip_witness:
  "traverse (lookup_word ALL_WORD_INDEX) keyword_card = Inr [1, 0, 2, 3] \<and>
   distinct [1, 0, 2, 3 :: nat] \<and> keyword_card \<noteq> [] \<and> code \<in> set ALL_CODES \<and>
   (\<exists>rvs scores.
      guesser_random_variables keyword_card ALL_WORD_INDEX = Inr rvs \<and>
      log_expected_probabilities_codes naive_clue_and_keyword_log_prob rvs [0, 3, 1] ALL_CODES
        = Inr scores \<and>
      guess ALL_CODES scores = Inr [1, 3, 0] \<and>
      ALL_CODES ! 10 = [1, 3, 0] \<and> scores ! 10 = Fin 0 \<and>
      ALL_CODES ! 11 = [1, 3, 2] \<and> np_lt (scores ! 11) (Fin 0))"
proof -
  have card: "traverse (lookup_word ALL_WORD_INDEX) keyword_card = Inr [1, 0, 2, 3]"
    by (rule notebook_keyword_card)
  have dist: "distinct [1, 0, 2, 3 :: nat]" by simp
  have ne: "keyword_card \<noteq> []" by (simp add: keyword_card_def)
  have mem: "code \<in> set ALL_CODES" by (simp add: code_def all_codes)
  have codes: "\<forall>c'\<in>set ALL_CODES. length c' = length code \<and> (\<forall>s\<in>set c'. s < length keyword_card)"
    by (simp add: code_def all_codes keyword_card_def)
  have clues: "traverse (lookup_word ALL_WORD_INDEX) (map (\<lambda>s. keyword_card ! s) code) = Inr [0, 3, 1]"
    using notebook_clue_indices by (simp only: clue_indices_def naive_clue_def)
  from certain_beliefs_round_trip [OF card dist ne mem codes] obtain rvs clues' scores where
    r: "guesser_random_variables keyword_card ALL_WORD_INDEX = Inr rvs"
      "traverse (lookup_word ALL_WORD_INDEX) (map (\<lambda>s. keyword_card ! s) code) = Inr clues'"
      "log_expected_probabilities_codes naive_clue_and_keyword_log_prob rvs clues' ALL_CODES
        = Inr scores"
      "guess ALL_CODES scores = Inr code"
      "\<forall>n<length ALL_CODES. if ALL_CODES ! n = code then scores ! n = Fin 0
                               else np_lt (scores ! n) (Fin 0)"
    by blast
  from r(2) clues have c: "clues' = [0, 3, 1]" by simp
  have a10: "ALL_CODES ! 10 = [1, 3, 0]" and a11: "ALL_CODES ! 11 = [1, 3, 2]"
    by (simp_all add: all_codes)
  have l: "10 < length ALL_CODES" "11 < length ALL_CODES" by (simp_all add: all_codes)
  from r(5) l(1) a10 have s10: "scores ! 10 = Fin 0" by (simp add: code_def)
  from r(5) l(2) a11 have s11: "np_lt (scores ! 11) (Fin 0)" by (simp add: code_def)
  from r(4) have g: "guess ALL_CODES scores = Inr [1, 3, 0]" by (simp add: code_def)
  from r(1) r(3) g a10 a11 s10 s11 have "\<exists>rvs scores.
      guesser_random_variables keyword_card ALL_WORD_INDEX = Inr rvs \<and>
      log_expected_probabilities_codes naive_clue_and_keyword_log_prob rvs [0, 3, 1] ALL_CODES
        = Inr scores \<and>
      guess ALL_CODES scores = Inr [1, 3, 0] \<and>
      ALL_CODES ! 10 = [1, 3, 0] \<and> scores ! 10 = Fin 0 \<and>
      ALL_CODES ! 11 = [1, 3, 2] \<and> np_lt (scores ! 11) (Fin 0)"
    unfolding c by blast
  with card dist ne mem show ?thesis by blast
qed

text \<open>A card that repeats a keyword: CAT, CAT, RUM, DRAG. The code \<open>(1, 2, 3)\<close> gives the
  clue CAT, RUM, DRAG, which the code \<open>(0, 2, 3)\<close> matches as well; both score 0 and the
  guess is the earlier one.\<close>

theorem repeated_keyword_round_trip:
  "guesser_random_variables [''CAT'', ''CAT'', ''RUM'', ''DRAG''] ALL_WORD_INDEX
     = Inr [certain 1, certain 1, certain 2, certain 3] \<and>
   [1, 2, 3] \<in> set ALL_CODES \<and>
   traverse (lookup_word ALL_WORD_INDEX)
     (map (\<lambda>s. [''CAT'', ''CAT'', ''RUM'', ''DRAG''] ! s) [1, 2, 3]) = Inr [1, 2, 3] \<and>
   log_expected_probabilities_codes naive_clue_and_keyword_log_prob
     [certain 1, certain 1, certain 2, certain 3] [1, 2, 3] ALL_CODES
   = Inr (map Fin [- 200, - 100, - 100, 0, - 200, - 200, - 200, - 100, - 100, 0, - 200, - 200,
                   - 300, - 200, - 300, - 200, - 300, - 300, - 300, - 300, - 300, - 300, - 200, - 200]) \<and>
   guess ALL_CODES
     (map Fin [- 200, - 100, - 100, 0, - 200, - 200, - 200, - 100, - 100, 0, - 200, - 200,
               - 300, - 200, - 300, - 200, - 300, - 300, - 300, - 300, - 300, - 300, - 200, - 200])
   = Inr [0, 2, 3] \<and> [0, 2, 3] \<noteq> [1, 2, 3 :: nat]"
proof -
  have 1: "guesser_random_variables [''CAT'', ''CAT'', ''RUM'', ''DRAG''] ALL_WORD_INDEX
     = Inr [certain 1, certain 1, certain 2, certain 3]"
    by (simp add: guesser_random_variables_def certain_def ALL_WORD_INDEX_def ALL_WORDS_def
        lookup_word_def)
  have 2: "[1, 2, 3] \<in> set ALL_CODES" by (simp add: all_codes)
  have 3: "traverse (lookup_word ALL_WORD_INDEX)
     (map (\<lambda>s. [''CAT'', ''CAT'', ''RUM'', ''DRAG''] ! s) [1, 2, 3]) = Inr [1, 2, 3]"
    by (simp add: ALL_WORD_INDEX_def ALL_WORDS_def lookup_word_def)
  have 4: "log_expected_probabilities_codes naive_clue_and_keyword_log_prob
     [certain 1, certain 1, certain 2, certain 3] [1, 2, 3] ALL_CODES
   = Inr (map Fin [- 200, - 100, - 100, 0, - 200, - 200, - 200, - 100, - 100, 0, - 200, - 200,
                   - 300, - 200, - 300, - 200, - 300, - 300, - 300, - 300, - 300, - 300, - 200, - 200])"
    using codes_certain [of "[1, 1, 2, 3]" ALL_CODES "[1, 2, 3]"]
    by (simp add: all_codes)
  have 5: "guess ALL_CODES
     (map Fin [- 200, - 100, - 100, 0, - 200, - 200, - 200, - 100, - 100, 0, - 200, - 200,
               - 300, - 200, - 300, - 200, - 300, - 300, - 300, - 300, - 300, - 300, - 200, - 200])
   = Inr [0, 2, 3]"
    by (simp add: guess_def np_argmax_def np_lt_def all_codes)
  from 1 2 3 4 5 show ?thesis by simp
qed

section \<open>Dense and certain beliefs\<close>

lemma guesser_random_variable_dense:
  "guesser_random_variable keyword word_index = Inr rv \<longleftrightarrow>
     (\<exists>i. lookup_word word_index keyword = Inr i \<and> i < length word_index \<and>
          rv = dense_belief (length word_index) i)"
  by (auto simp: guesser_random_variable_def dense_belief_def Let_def split: sum.splits)

lemma dense_terms:
  assumes "i < n"
  shows "map2 fadd ((replicate n NInf)[i := Fin 0]) (map (\<lambda>k. Fin (s k)) [0..<n])
       = map (\<lambda>j. if j = i then Fin (s i) else NInf) [0..<n]"
  using assms by (intro nth_equalityI) (auto simp: nth_list_update)

lemma dense_prob_sum:
  assumes "i < n"
  shows "sum_list (map prob_of (map (\<lambda>j. if j = i then Fin a else NInf) [0..<n])) = exp a"
proof -
  have "map prob_of (map (\<lambda>j. if j = i then Fin a else NInf) [0..<n])
      = map (\<lambda>j. if j = i then exp a else 0) [0..<n]" by simp
  then have "sum_list (map prob_of (map (\<lambda>j. if j = i then Fin a else NInf) [0..<n]))
      = sum_list (map (\<lambda>j. if j = i then exp a else 0) [0..<n])" by (simp only:)
  also have "\<dots> = (\<Sum>j\<in>set [0..<n]. if j = i then exp a else 0)"
    by (rule interv_sum_list_conv_sum_set_nat)
  also have "\<dots> = exp a"
    using assms by (simp add: sum.delta)
  finally show ?thesis .
qed

lemma lep_dense:
  assumes "i < n"
  shows "log_expected_probability (\<lambda>k. Fin (s k)) ((replicate n NInf)[i := Fin 0]) [0..<n]
       = Inr (Fin (s i))"
proof -
  let ?ts = "map (\<lambda>j. if j = i then Fin (s i) else NInf) [0..<n]"
  have t: "log_terms (\<lambda>k. Fin (s k)) ((replicate n NInf)[i := Fin 0]) [0..<n] = ?ts"
    unfolding log_terms_def using assms by (rule dense_terms)
  have len: "length ((replicate n NInf)[i := Fin 0]) = length [0..<n]" by simp
  have lv: "\<forall>t\<in>set ?ts. log_value t" by auto
  have fin: "Fin (s i) \<in> set ?ts" using assms by auto
  have near: "\<forall>x y. Fin x \<in> set ?ts \<and> Fin y \<in> set ?ts \<longrightarrow> y + EXP_MIN_ARG \<le> x"
    using EXP_MIN_ARG_neg by (auto split: if_splits)
  from lep_value [OF len, of "\<lambda>k. Fin (s k)" "s i"] lv fin near
  have "log_expected_probability (\<lambda>k. Fin (s k)) ((replicate n NInf)[i := Fin 0]) [0..<n]
      = Inr (Fin (ln (sum_list (map prob_of ?ts))))"
    unfolding t by blast
  then show ?thesis using dense_prob_sum [OF assms, of "s i"] by simp
qed

lemma lep_certain_score:
  "log_expected_probability (\<lambda>k. Fin (s k)) [Fin 0] [i] = Inr (Fin (s i))"
  by (simp add: log_expected_probability_def broadcast_add_def np_max_def np_sum_def fsub_def)

lemma naive_finite:
  "naive_clue_and_keyword_log_prob = (\<lambda>c k. Fin (if k = c then 0 else - 100))"
  by (intro ext) (simp add: naive_clue_and_keyword_log_prob_def LOG_PROB_ZERO_def)

text \<open>
  Claim C7, as the code has it. The full-support belief of the notebook carries negative
  infinity, not the finite constant \<^verbatim>\<open>LOG_PROB_ZERO\<close>, at every index but the keyword's.
  For every keyword of the vocabulary, every clue sequence and every heuristic with
  finite scores, that belief and the certain belief of the same keyword give the same
  row of the matrix of log expectations: the heuristic's scores of the keyword against
  the clues.
\<close>

theorem dense_and_certain_rows:
  assumes "guesser_random_variable keyword word_index = Inr dense"
  shows "\<exists>i. guesser_random_variables [keyword] word_index = Inr [certain i] \<and>
           dense = dense_belief (length word_index) i \<and>
           expectation_matrix (\<lambda>c k. Fin (score c k)) [dense] clues
             = Inr [map (\<lambda>c. Fin (score c i)) clues] \<and>
           expectation_matrix (\<lambda>c k. Fin (score c k)) [certain i] clues
             = Inr [map (\<lambda>c. Fin (score c i)) clues]"
proof -
  from assms obtain i where i: "lookup_word word_index keyword = Inr i" "i < length word_index"
      "dense = dense_belief (length word_index) i"
    by (auto simp: guesser_random_variable_dense)
  have "guesser_random_variables [keyword] word_index = Inr [certain i]"
    using i(1) by (simp add: guesser_random_variables_def certain_def)
  moreover have "expectation_matrix (\<lambda>c k. Fin (score c k)) [dense] clues
             = Inr [map (\<lambda>c. Fin (score c i)) clues]"
    using i(2) by (simp add: expectation_matrix_def i(3) dense_belief_def lep_dense traverse_map)
  moreover have "expectation_matrix (\<lambda>c k. Fin (score c k)) [certain i] clues
             = Inr [map (\<lambda>c. Fin (score c i)) clues]"
    by (simp add: expectation_matrix_def certain_def lep_certain_score traverse_map)
  ultimately show ?thesis using i(3) by blast
qed

theorem dense_and_certain_rows_witness:
  "guesser_random_variable ''CAT'' ALL_WORD_INDEX = Inr (dense_belief 4 1) \<and>
   dense_belief 4 1 = \<lparr>log_probabilities = [NInf, Fin 0, NInf, NInf], keyword_indices = [0, 1, 2, 3]\<rparr> \<and>
   guesser_random_variables [''CAT''] ALL_WORD_INDEX = Inr [certain 1] \<and>
   expectation_matrix naive_clue_and_keyword_log_prob [dense_belief 4 1] [0, 3, 1]
     = Inr [[Fin (- 100), Fin (- 100), Fin 0]] \<and>
   expectation_matrix naive_clue_and_keyword_log_prob [certain 1] [0, 3, 1]
     = Inr [[Fin (- 100), Fin (- 100), Fin 0]]"
proof -
  have len: "length ALL_WORD_INDEX = 4"
    by (simp add: ALL_WORD_INDEX_def ALL_WORDS_def)
  have lk: "lookup_word ALL_WORD_INDEX ''CAT'' = Inr 1"
    by (simp add: ALL_WORD_INDEX_def ALL_WORDS_def lookup_word_def)
  have d: "guesser_random_variable ''CAT'' ALL_WORD_INDEX = Inr (dense_belief 4 1)"
    by (simp add: guesser_random_variable_dense len lk)
  have e: "dense_belief 4 1
      = \<lparr>log_probabilities = [NInf, Fin 0, NInf, NInf], keyword_indices = [0, 1, 2, 3]\<rparr>"
    unfolding dense_belief_def by code_simp
  have c: "guesser_random_variables [''CAT''] ALL_WORD_INDEX = Inr [certain 1]"
    by (simp add: guesser_random_variables_def certain_def lk)
  from dense_and_certain_rows [OF d, of "\<lambda>c k. if k = c then 0 else - 100" "[0, 3, 1]"] c
  have "expectation_matrix naive_clue_and_keyword_log_prob [dense_belief 4 1] [0, 3, 1]
     = Inr [[Fin (- 100), Fin (- 100), Fin 0]] \<and>
   expectation_matrix naive_clue_and_keyword_log_prob [certain 1] [0, 3, 1]
     = Inr [[Fin (- 100), Fin (- 100), Fin 0]]"
    unfolding naive_finite by (auto simp: certain_def)
  with d e c show ?thesis by blast
qed

text \<open>With the finite constant at the other indices the rows differ. Vocabulary of four
  words, keyword index 1, clue index 0, naive heuristic: the summed log-terms are
  \<open>-100, -100, -200, -200\<close>, two of them maximal, and the expectation is
  \<open>ln (2 + 2 exp (-100)) - 100\<close>, above the \<open>-100\<close> of the certain belief.\<close>

theorem sentinel_belief_row_differs:
  "expectation_matrix naive_clue_and_keyword_log_prob [sentinel_belief 4 1] [0]
     = Inr [[Fin (ln (2 + 2 * exp (- 100)) - 100)]] \<and>
   expectation_matrix naive_clue_and_keyword_log_prob [certain 1] [0] = Inr [[Fin (- 100)]] \<and>
   Fin (ln (2 + 2 * exp (- 100)) - 100) \<noteq> Fin (- 100)"
proof -
  have s: "sentinel_belief 4 1 = \<lparr>log_probabilities = [Fin (- 100), Fin 0, Fin (- 100), Fin (- 100)],
      keyword_indices = [0, 1, 2, 3]\<rparr>"
    unfolding sentinel_belief_def LOG_PROB_ZERO_def by code_simp
  have pos: "0 < 2 + 2 * exp (- 100 :: real)" by (simp add: add_pos_nonneg)
  have "log_expected_probability (naive_clue_and_keyword_log_prob 0)
      [Fin (- 100), Fin 0, Fin (- 100), Fin (- 100)] [0, 1, 2, 3]
      = Inr (Fin (ln (2 + 2 * exp (- 100)) - 100))"
    using pos
    by (simp add: log_expected_probability_def broadcast_add_def np_max_def np_sum_def fsub_def
        naive_clue_and_keyword_log_prob_def LOG_PROB_ZERO_def np_lt_def)
  then have 1: "expectation_matrix naive_clue_and_keyword_log_prob [sentinel_belief 4 1] [0]
     = Inr [[Fin (ln (2 + 2 * exp (- 100)) - 100)]]"
    unfolding expectation_matrix_def s by simp
  have 2: "expectation_matrix naive_clue_and_keyword_log_prob [certain 1] [0] = Inr [[Fin (- 100)]]"
    by (simp add: expectation_matrix_def certain_def lep_certain)
  have "(1::real) < 2 + 2 * exp (- 100)"
    using exp_gt_zero [of "- 100 :: real"] by linarith
  then have "ln (2 + 2 * exp (- 100 :: real)) \<noteq> 0"
    using ln_gt_zero [of "2 + 2 * exp (- 100 :: real)"] by simp
  then have 3: "Fin (ln (2 + 2 * exp (- 100)) - 100) \<noteq> Fin (- 100)" by simp
  from 1 2 3 show ?thesis by blast
qed

section \<open>A clue that is impossible for every believed keyword\<close>

lemma sentinel_terms:
  assumes "length lps = length kis" and "\<forall>k\<in>set kis. f k = LOG_PROB_ZERO"
  shows "log_terms f lps kis = map (\<lambda>lp. fadd lp (Fin (- 100))) lps"
  using assms by (intro nth_equalityI) (auto simp: LOG_PROB_ZERO_def log_terms_def)

lemma prob_of_sentinel: "log_value lp \<Longrightarrow> prob_of (fadd lp (Fin (- 100))) = prob_of lp * exp (- 100)"
  by (cases lp) (auto simp: exp_diff exp_minus divide_inverse)

lemma log_value_sentinel: "log_value lp \<Longrightarrow> log_value (fadd lp (Fin (- 100)))"
  by (cases lp) auto

lemma sentinel_finite:
  "log_value lp \<Longrightarrow> fadd lp (Fin (- 100)) = Fin x \<longleftrightarrow> lp = Fin (x + 100)"
  by (cases lp) auto

lemma sentinel_prob_sum:
  assumes "\<forall>lp\<in>set lps. log_value lp"
  shows "sum_list (map prob_of (map (\<lambda>lp. fadd lp (Fin (- 100))) lps))
           = sum_list (map prob_of lps) * exp (- 100)"
proof -
  have "map prob_of (map (\<lambda>lp. fadd lp (Fin (- 100))) lps)
      = map (\<lambda>lp. prob_of lp * exp (- 100)) lps"
    using assms by (simp add: prob_of_sentinel)
  then show ?thesis by (simp only: sum_list_mult_const)
qed

text \<open>
  Claim C8, as the code has it. Take a belief whose log-probabilities are finite or
  negative infinity, at least one of them finite, and a heuristic that maps its entire
  support to \<^verbatim>\<open>LOG_PROB_ZERO\<close>. The expectation engine raises nothing and returns a
  finite value, not NaN and not an infinity. Every exponential it takes is of a shifted
  log-term that is not above 0, and is a real from 0 to 1: nothing overflows, and a
  shifted log-term below the range of the exponential gives 0. The value returned is
  the constant plus the logarithm of the total probability of the support: exactly when
  no two finite log-probabilities are further apart than the range of the exponential,
  and otherwise from below by not more than the size of the support times the smallest
  exponential. So it is the constant itself for a belief whose total probability is 1,
  as it is for a certain belief and for a full-support belief of the notebook; for a
  belief that kept one keyword of probability one half it is the constant plus
  \<open>ln (1/2)\<close>. Sums and logarithms are exact in the model; the exponential has the range
  of the 64-bit format.
\<close>

theorem impossible_clue_expectation:
  assumes len: "length lps = length kis"
    and lv: "\<forall>lp\<in>set lps. log_value lp"
    and fin: "Fin a \<in> set lps"
    and imp: "\<forall>k\<in>set kis. f k = LOG_PROB_ZERO"
  shows "\<exists>m v.
           np_max (log_terms f lps kis) = Inr (Fin m) \<and>
           (\<forall>t\<in>set (log_terms f lps kis).
              np_le (fsub t (Fin m)) (Fin 0) \<and>
              (\<exists>e. np_exp (fsub t (Fin m)) = Fin e \<and> 0 \<le> e \<and> e \<le> 1 \<and>
                   (\<forall>x. t = Fin x \<and> x - m < EXP_MIN_ARG \<longrightarrow> e = 0))) \<and>
           log_expected_probability f lps kis = Inr (Fin v) \<and>
           ln (sum_list (map prob_of lps)) - 100 - real (length lps) * exp EXP_MIN_ARG \<le> v \<and>
           v \<le> ln (sum_list (map prob_of lps)) - 100 \<and>
           ((\<forall>x y. Fin x \<in> set lps \<and> Fin y \<in> set lps \<longrightarrow> y + EXP_MIN_ARG \<le> x)
              \<longrightarrow> v = ln (sum_list (map prob_of lps)) - 100) \<and>
           ((\<forall>x y. Fin x \<in> set lps \<and> Fin y \<in> set lps \<longrightarrow> y + EXP_MIN_ARG \<le> x) \<and>
            sum_list (map prob_of lps) = 1
              \<longrightarrow> log_expected_probability f lps kis = Inr LOG_PROB_ZERO)"
proof -
  let ?ts = "map (\<lambda>lp. fadd lp (Fin (- 100))) lps"
  have t: "log_terms f lps kis = ?ts" using len imp by (rule sentinel_terms)
  have lv': "\<forall>t\<in>set (log_terms f lps kis). log_value t"
    unfolding t using lv by (auto simp: log_value_sentinel)
  have "fadd (Fin a) (Fin (- 100)) \<in> set ?ts" using fin by (simp only: set_map) (rule imageI)
  then have fin': "Fin (a - 100) \<in> set (log_terms f lps kis)" unfolding t by simp
  have s: "sum_list (map prob_of (log_terms f lps kis)) = sum_list (map prob_of lps) * exp (- 100)"
    unfolding t using lv by (rule sentinel_prob_sum)
  have pos: "0 < sum_list (map prob_of lps)" using fin by (rule sum_list_prob_pos)
  have lnP: "ln (sum_list (map prob_of (log_terms f lps kis)))
      = ln (sum_list (map prob_of lps)) - 100"
    unfolding s using pos by (simp add: ln_mult)
  from lep_stages [OF len lv' fin'] obtain m S where st:
    "np_max (log_terms f lps kis) = Inr (Fin m)"
    "Fin m \<in> set (log_terms f lps kis)"
    "\<forall>t\<in>set (log_terms f lps kis). np_le t (Fin m)"
    "log_expected_probability f lps kis = Inr (Fin (ln S + m))"
    "ln (sum_list (map prob_of (log_terms f lps kis)))
       - real (length kis) * exp EXP_MIN_ARG \<le> ln S + m"
    "ln S + m \<le> ln (sum_list (map prob_of (log_terms f lps kis)))"
    "(\<forall>x. Fin x \<in> set (log_terms f lps kis) \<longrightarrow> m + EXP_MIN_ARG \<le> x)
       \<longrightarrow> ln S + m = ln (sum_list (map prob_of (log_terms f lps kis)))"
    by blast
  define v where "v = ln S + m"
  have ex: "\<forall>t\<in>set (log_terms f lps kis).
              np_le (fsub t (Fin m)) (Fin 0) \<and>
              (\<exists>e. np_exp (fsub t (Fin m)) = Fin e \<and> 0 \<le> e \<and> e \<le> 1 \<and>
                   (\<forall>x. t = Fin x \<and> x - m < EXP_MIN_ARG \<longrightarrow> e = 0))"
  proof
    fix t assume t: "t \<in> set (log_terms f lps kis)"
    with st(3) lv' have le: "np_le t (Fin m)" and l: "log_value t" by blast+
    then have 1: "np_le (fsub t (Fin m)) (Fin 0)" by (cases t) (auto simp: fsub_def)
    have 2: "np_exp (fsub t (Fin m)) = Fin (exp_shift m t)" using l le by (rule exp_offset)
    have 3: "\<forall>x. t = Fin x \<and> x - m < EXP_MIN_ARG \<longrightarrow> exp_shift m t = 0"
      by (auto simp: exp_shift_def)
    from 1 2 3 exp_shift_nonneg [of m t] exp_shift_le_one [OF le]
    show "np_le (fsub t (Fin m)) (Fin 0) \<and>
          (\<exists>e. np_exp (fsub t (Fin m)) = Fin e \<and> 0 \<le> e \<and> e \<le> 1 \<and>
               (\<forall>x. t = Fin x \<and> x - m < EXP_MIN_ARG \<longrightarrow> e = 0))"
      by blast
  qed
  have lo: "ln (sum_list (map prob_of lps)) - 100 - real (length lps) * exp EXP_MIN_ARG \<le> v"
    using st(5) unfolding lnP v_def len by simp
  have up: "v \<le> ln (sum_list (map prob_of lps)) - 100"
    using st(6) unfolding lnP v_def .
  have exact: "v = ln (sum_list (map prob_of lps)) - 100"
    if near: "\<forall>x y. Fin x \<in> set lps \<and> Fin y \<in> set lps \<longrightarrow> y + EXP_MIN_ARG \<le> x"
  proof -
    from st(2) obtain lpm where lpm: "lpm \<in> set lps" "fadd lpm (Fin (- 100)) = Fin m"
      unfolding t by auto
    with lv have m: "Fin (m + 100) \<in> set lps" by (auto simp: sentinel_finite)
    have "\<forall>x. Fin x \<in> set (log_terms f lps kis) \<longrightarrow> m + EXP_MIN_ARG \<le> x"
    proof (intro allI impI)
      fix x assume "Fin x \<in> set (log_terms f lps kis)"
      then obtain lp where "lp \<in> set lps" "fadd lp (Fin (- 100)) = Fin x"
        unfolding t by auto
      with lv have "Fin (x + 100) \<in> set lps" by (auto simp: sentinel_finite)
      with near m have "(m + 100) + EXP_MIN_ARG \<le> x + 100" by blast
      then show "m + EXP_MIN_ARG \<le> x" by simp
    qed
    with st(7) show ?thesis unfolding lnP v_def by blast
  qed
  have one: "log_expected_probability f lps kis = Inr LOG_PROB_ZERO"
    if "(\<forall>x y. Fin x \<in> set lps \<and> Fin y \<in> set lps \<longrightarrow> y + EXP_MIN_ARG \<le> x) \<and>
        sum_list (map prob_of lps) = 1"
    using exact that st(4) unfolding v_def LOG_PROB_ZERO_def by simp
  from st(1) st(4) ex lo up exact one show ?thesis unfolding v_def by blast
qed

text \<open>A full-support belief of the notebook over two words and a certain belief, under the
  naive heuristic for a clue that is neither of the words: the expectation is the
  constant.\<close>

theorem impossible_clue_expectation_witness:
  "length [NInf, Fin 0] = length [2, 3 :: nat] \<and>
   log_value NInf \<and> log_value (Fin 0) \<and> Fin 0 \<in> set [NInf, Fin 0] \<and>
   naive_clue_and_keyword_log_prob 0 2 = LOG_PROB_ZERO \<and>
   naive_clue_and_keyword_log_prob 0 3 = LOG_PROB_ZERO \<and>
   sum_list (map prob_of [NInf, Fin 0]) = 1 \<and>
   log_expected_probability (naive_clue_and_keyword_log_prob 0) [NInf, Fin 0] [2, 3]
     = Inr LOG_PROB_ZERO \<and>
   log_expected_probability (naive_clue_and_keyword_log_prob 0) [Fin 0] [2]
     = Inr LOG_PROB_ZERO"
  using impossible_clue_expectation [of "[NInf, Fin 0]" "[2, 3]" 0
      "naive_clue_and_keyword_log_prob 0"]
  by (simp add: naive_clue_and_keyword_log_prob_def LOG_PROB_ZERO_def
      log_expected_probability_def broadcast_add_def np_max_def np_sum_def fsub_def np_lt_def)

text \<open>A belief that kept one keyword of probability one half: the expectation of an
  impossible clue is \<open>ln (1/2) - 100\<close>, below the constant. And the exponential of the
  constant itself is not zero.\<close>

theorem impossible_clue_below_sentinel:
  "naive_clue_and_keyword_log_prob 1 0 = LOG_PROB_ZERO \<and>
   log_expected_probability (naive_clue_and_keyword_log_prob 1) [Fin (ln (1/2))] [0]
     = Inr (Fin (ln (1/2) - 100)) \<and>
   Inr (Fin (ln (1/2) - 100)) \<noteq> (Inr LOG_PROB_ZERO :: py_error + np_float) \<and>
   np_exp LOG_PROB_ZERO = Fin (exp (- 100)) \<and>
   Fin (exp (- 100)) \<noteq> Fin 0"
  by (simp add: log_expected_probability_def broadcast_add_def np_max_def np_sum_def fsub_def
      naive_clue_and_keyword_log_prob_def LOG_PROB_ZERO_def)

section \<open>Keyword indices beyond the vocabulary\<close>

text \<open>
  Claim C9, as the code has it. No function of the notebook compares a keyword index
  with the size of the vocabulary, and none raises an error of that kind. For every
  non-empty batch of beliefs with one common positive support size and every enumeration
  of codes over their slots, a support that holds a keyword index at or beyond the
  vocabulary size changes nothing: the engine returns its matrix and the decoder its
  vector of scores. Under the naive heuristic such an index scores \<^verbatim>\<open>LOG_PROB_ZERO\<close>
  against every clue of the vocabulary.
\<close>

theorem out_of_vocabulary_index_scored:
  assumes "rvs \<noteq> []" and "0 < K"
    and "\<forall>rv\<in>set rvs. length (log_probabilities rv) = K \<and> length (keyword_indices rv) = K"
    and "\<forall>c\<in>set codes. \<forall>s\<in>set c. s < length rvs"
    and "rv \<in> set rvs" and "k \<in> set (keyword_indices rv)" and "vocabulary_size \<le> k"
  shows "(\<exists>m result. expectation_matrix func rvs clues = Inr m \<and>
            log_expected_probabilities_codes func rvs clues codes = Inr result \<and>
            length result = length codes) \<and>
         (\<forall>c<vocabulary_size. naive_clue_and_keyword_log_prob c k = LOG_PROB_ZERO)"
  using codes_total [OF assms(1-4)] assms(7)
  by (auto simp: naive_clue_and_keyword_log_prob_def)

theorem out_of_vocabulary_index_scored_witness:
  "[certain 7, certain 0, certain 2, certain 3] \<noteq> [] \<and> 0 < (1::nat) \<and>
   certain 7 \<in> set [certain 7, certain 0, certain 2, certain 3] \<and>
   7 \<in> set (keyword_indices (certain 7)) \<and> (4::nat) \<le> 7 \<and>
   (\<exists>m result. expectation_matrix naive_clue_and_keyword_log_prob
        [certain 7, certain 0, certain 2, certain 3] [0, 3, 1] = Inr m \<and>
      log_expected_probabilities_codes naive_clue_and_keyword_log_prob
        [certain 7, certain 0, certain 2, certain 3] [0, 3, 1] ALL_CODES = Inr result \<and>
      length result = length ALL_CODES) \<and>
   naive_clue_and_keyword_log_prob 3 7 = LOG_PROB_ZERO"
proof -
  let ?rvs = "[certain 7, certain 0, certain 2, certain 3]"
  have 1: "?rvs \<noteq> []" and 2: "0 < (1::nat)" by simp_all
  have 3: "\<forall>rv\<in>set ?rvs. length (log_probabilities rv) = 1 \<and> length (keyword_indices rv) = 1"
    by (simp add: certain_def)
  have 4: "\<forall>c\<in>set ALL_CODES. \<forall>s\<in>set c. s < length ?rvs" by (simp add: all_codes)
  have 5: "certain 7 \<in> set ?rvs" by simp
  have 6: "7 \<in> set (keyword_indices (certain 7))" by (simp add: certain_def)
  have 7: "(4::nat) \<le> 7" by simp
  from out_of_vocabulary_index_scored [OF 1 2 3 4 5 6 7, of naive_clue_and_keyword_log_prob "[0, 3, 1]"]
  have "(\<exists>m result. expectation_matrix naive_clue_and_keyword_log_prob ?rvs [0, 3, 1] = Inr m \<and>
      log_expected_probabilities_codes naive_clue_and_keyword_log_prob ?rvs [0, 3, 1] ALL_CODES
        = Inr result \<and> length result = length ALL_CODES) \<and>
    naive_clue_and_keyword_log_prob 3 7 = LOG_PROB_ZERO"
    by auto
  with 1 2 5 6 7 show ?thesis by blast
qed

text \<open>The notebook's vocabulary has four words; a certain belief at index 7 in slot 0 is
  decoded like any other.\<close>

theorem out_of_vocabulary_index_returns:
  "length ALL_WORDS \<le> 7 \<and> keyword_indices (certain 7) = [7] \<and>
   log_expected_probability (naive_clue_and_keyword_log_prob 0) (log_probabilities (certain 7))
     (keyword_indices (certain 7)) = Inr (Fin (- 100)) \<and>
   log_expected_probabilities_codes naive_clue_and_keyword_log_prob
     [certain 7, certain 0, certain 2, certain 3] [0, 3, 1] ALL_CODES
   = Inr (map Fin [- 300, - 300, - 300, - 300, - 200, - 200, - 200, - 200, - 200, - 200, - 100, - 100,
                   - 300, - 300, - 300, - 300, - 200, - 200, - 300, - 300, - 300, - 300, - 300, - 300])"
proof -
  have "log_expected_probabilities_codes naive_clue_and_keyword_log_prob
     [certain 7, certain 0, certain 2, certain 3] [0, 3, 1] ALL_CODES
   = Inr (map Fin [- 300, - 300, - 300, - 300, - 200, - 200, - 200, - 200, - 200, - 200, - 100, - 100,
                   - 300, - 300, - 300, - 300, - 200, - 200, - 300, - 300, - 300, - 300, - 300, - 300])"
    using codes_certain [of "[7, 0, 2, 3]" ALL_CODES "[0, 3, 1]"]
    by (simp add: all_codes)
  then show ?thesis
    by (simp add: ALL_WORDS_def certain_def lep_certain)
qed

section \<open>Reducing the size of the beliefs\<close>

lemma length_argsort_insert: "length (argsort_insert ks i js) = Suc (length js)"
  by (induction js) auto

lemma set_argsort_insert: "set (argsort_insert ks i js) = insert i (set js)"
  by (induction js) auto

lemma sorted_argsort_insert:
  "sorted_wrt (\<lambda>a b. np_le (ks ! a) (ks ! b)) js \<Longrightarrow>
   sorted_wrt (\<lambda>a b. np_le (ks ! a) (ks ! b)) (argsort_insert ks i js)"
proof (induction js)
  case Nil
  then show ?case by simp
next
  case (Cons j js)
  show ?case
  proof (cases "np_le (ks ! i) (ks ! j)")
    case True
    with Cons.prems show ?thesis by (auto intro: np_le_trans)
  next
    case False
    then have "np_le (ks ! j) (ks ! i)" using np_le_total by blast
    with False Cons show ?thesis by (auto simp: set_argsort_insert)
  qed
qed

lemma foldr_argsort:
  "length (foldr (argsort_insert ks) is []) = length is \<and>
   set (foldr (argsort_insert ks) is []) = set is \<and>
   sorted_wrt (\<lambda>a b. np_le (ks ! a) (ks ! b)) (foldr (argsort_insert ks) is [])"
  by (induction "is") (auto simp: length_argsort_insert set_argsort_insert sorted_argsort_insert)

lemma length_np_argsort: "length (np_argsort ks) = length ks"
  by (simp add: np_argsort_def foldr_argsort)

lemma set_np_argsort: "set (np_argsort ks) = {0..<length ks}"
  by (simp add: np_argsort_def foldr_argsort)

lemma sorted_np_argsort: "sorted_wrt (\<lambda>a b. np_le (ks ! a) (ks ! b)) (np_argsort ks)"
  by (simp add: np_argsort_def foldr_argsort)

lemma length_cumsum_from: "length (cumsum_from acc xs) = length xs"
  by (induction xs arbitrary: acc) auto

lemma length_np_cumsum: "length (np_cumsum xs) = length xs"
  by (simp add: np_cumsum_def length_cumsum_from)

lemma first_true_less: "first_true bs = Some i \<Longrightarrow> i < length bs"
  by (induction bs arbitrary: i) (auto split: if_splits)

lemma np_argmax_bool_Inr_iff:
  "np_argmax_bool bs = Inr i \<longleftrightarrow>
     bs \<noteq> [] \<and> i = (case first_true bs of None \<Rightarrow> 0 | Some j \<Rightarrow> j)"
  by (cases bs) (auto simp: np_argmax_bool_def)

lemma np_argmax_bool_less: "np_argmax_bool bs = Inr i \<Longrightarrow> i < length bs"
  by (auto simp: np_argmax_bool_Inr_iff dest: first_true_less split: option.splits)

text \<open>One row of the prefix count.\<close>

lemma broadcast_rows_same:
  "length rows = length orders \<Longrightarrow> broadcast_rows rows orders = Inr (zip rows orders)"
  by (simp add: broadcast_rows_def)

lemma num_indices_positive:
  assumes "num_indices_for_cumulative_probability log_probs by_decreasing p = Inr ns"
  shows "\<forall>n\<in>set ns. 1 \<le> n"
proof
  fix n assume "n \<in> set ns"
  then obtain j where j: "j < length ns" "ns ! j = n" by (auto simp: in_set_conv_nth)
  from assms obtain pairs where t: "traverse (\<lambda>(row, order).
             if list_ex (\<lambda>i. length row \<le> i) order then Inl IndexError
             else (case np_argmax_bool
                          (map (\<lambda>s. fge s (np_log (Fin p)))
                               (np_cumsum (map (\<lambda>i. row ! i) order))) of
                     Inl e \<Rightarrow> Inl e
                   | Inr earliest_index \<Rightarrow> Inr (earliest_index + 1)))
           pairs = Inr ns"
    by (auto simp: num_indices_for_cumulative_probability_def split: if_splits sum.splits)
  with j(1) have "(case pairs ! j of (row, order) \<Rightarrow>
             if list_ex (\<lambda>i. length row \<le> i) order then Inl IndexError
             else (case np_argmax_bool
                          (map (\<lambda>s. fge s (np_log (Fin p)))
                               (np_cumsum (map (\<lambda>i. row ! i) order))) of
                     Inl e \<Rightarrow> Inl e
                   | Inr earliest_index \<Rightarrow> Inr (earliest_index + 1))) = Inr (ns ! j)"
    by (simp add: traverse_Inr_iff)
  then have "1 \<le> ns ! j" by (auto split: prod.splits if_splits sum.splits)
  with j(2) show "1 \<le> n" by simp
qed

lemma num_indices_row:
  assumes "num_indices_for_cumulative_probability log_probs by_decreasing p = Inr ns"
    and "r < length log_probs"
    and len: "length log_probs = length by_decreasing"
  shows "length ns = length log_probs \<and> length by_decreasing = length log_probs \<and>
         1 \<le> ns ! r \<and> ns ! r \<le> length (by_decreasing ! r) \<and>
         (\<forall>i\<in>set (by_decreasing ! r). i < length (log_probs ! r))"
proof -
  from assms(2) have ne: "log_probs \<noteq> []" by auto
  with assms(1) len have t: "traverse (\<lambda>(row, order).
             if list_ex (\<lambda>i. length row \<le> i) order then Inl IndexError
             else (case np_argmax_bool
                          (map (\<lambda>s. fge s (np_log (Fin p)))
                               (np_cumsum (map (\<lambda>i. row ! i) order))) of
                     Inl e \<Rightarrow> Inl e
                   | Inr earliest_index \<Rightarrow> Inr (earliest_index + 1)))
           (zip log_probs by_decreasing) = Inr ns"
    by (simp add: num_indices_for_cumulative_probability_def broadcast_rows_same)
  from t have l: "length ns = length log_probs" using len by (simp add: traverse_Inr_iff)
  from t assms(2) len have row: "(if list_ex (\<lambda>i. length (log_probs ! r) \<le> i) (by_decreasing ! r)
        then Inl IndexError
        else (case np_argmax_bool (map (\<lambda>s. fge s (np_log (Fin p)))
                 (np_cumsum (map (\<lambda>i. log_probs ! r ! i) (by_decreasing ! r)))) of
                Inl e \<Rightarrow> Inl e
              | Inr earliest_index \<Rightarrow> Inr (earliest_index + 1))) = Inr (ns ! r)"
    by (simp add: traverse_Inr_iff)
  then have ix: "\<not> list_ex (\<lambda>i. length (log_probs ! r) \<le> i) (by_decreasing ! r)"
    by (auto split: if_splits)
  with row obtain e where e: "np_argmax_bool (map (\<lambda>s. fge s (np_log (Fin p)))
                 (np_cumsum (map (\<lambda>i. log_probs ! r ! i) (by_decreasing ! r)))) = Inr e"
      "ns ! r = e + 1"
    by (auto split: sum.splits)
  from e(1) have "e < length (by_decreasing ! r)"
    using np_argmax_bool_less by (fastforce simp: length_np_cumsum)
  with e(2) ix l len show ?thesis by (auto simp: list_ex_iff not_le)
qed

lemma num_indices_total:
  assumes "0 < K" and "\<forall>row\<in>set rows. length row = K" and "rows \<noteq> []"
  shows "\<exists>ns. num_indices_for_cumulative_probability rows
                 (map (\<lambda>row. np_argsort (map fneg row)) rows) p = Inr ns"
proof -
  have "\<exists>ns. traverse (\<lambda>(row, order).
             if list_ex (\<lambda>i. length row \<le> i) order then Inl IndexError
             else (case np_argmax_bool
                          (map (\<lambda>s. fge s (np_log (Fin p)))
                               (np_cumsum (map (\<lambda>i. row ! i) order))) of
                     Inl e \<Rightarrow> Inl e
                   | Inr earliest_index \<Rightarrow> Inr (earliest_index + 1)))
           (zip rows (map (\<lambda>row. np_argsort (map fneg row)) rows)) = Inr ns"
  proof (rule traverse_total)
    fix x assume "x \<in> set (zip rows (map (\<lambda>row. np_argsort (map fneg row)) rows))"
    then obtain row where x: "x = (row, np_argsort (map fneg row))" "row \<in> set rows"
      by (auto simp: zip_map2 zip_same)
    have ix: "\<not> list_ex (\<lambda>i. length row \<le> i) (np_argsort (map fneg row))"
      by (auto simp: list_ex_iff set_np_argsort)
    have "map (\<lambda>s. fge s (np_log (Fin p)))
            (np_cumsum (map (\<lambda>i. row ! i) (np_argsort (map fneg row)))) \<noteq> []"
      using assms x(2) by (auto simp: np_cumsum_def length_np_argsort
          dest!: arg_cong [where f = length] simp: length_cumsum_from)
    then obtain e where "np_argmax_bool (map (\<lambda>s. fge s (np_log (Fin p)))
            (np_cumsum (map (\<lambda>i. row ! i) (np_argsort (map fneg row))))) = Inr e"
      by (auto simp: np_argmax_bool_Inr_iff)
    with ix show "\<exists>y. (case x of (row, order) \<Rightarrow>
             if list_ex (\<lambda>i. length row \<le> i) order then Inl IndexError
             else (case np_argmax_bool
                          (map (\<lambda>s. fge s (np_log (Fin p)))
                               (np_cumsum (map (\<lambda>i. row ! i) order))) of
                     Inl e \<Rightarrow> Inl e
                   | Inr earliest_index \<Rightarrow> Inr (earliest_index + 1))) = Inr y"
      by (simp add: x(1))
  qed
  then show ?thesis using assms(3)
    by (simp add: num_indices_for_cumulative_probability_def broadcast_rows_same)
qed

lemma num_indices_nonempty:
  "num_indices_for_cumulative_probability log_probs by_decreasing p = Inr ns \<Longrightarrow> log_probs \<noteq> []"
  by (auto simp: num_indices_for_cumulative_probability_def split: if_splits)

lemma zip_rows: "map (\<lambda>(a, b). g a b) (zip (map f xs) xs) = map (\<lambda>x. g (f x) x) xs"
  by (induction xs) auto

lemma random_vars_Inr:
  assumes "random_vars_at_least_cumulative_probability rvs p = Inr reduced"
  shows "\<exists>ns. rvs \<noteq> [] \<and>
     num_indices_for_cumulative_probability (map log_probabilities rvs)
       (map (\<lambda>row. np_argsort (map fneg row)) (map log_probabilities rvs)) p = Inr ns \<and>
     reduced = map (\<lambda>kw. \<lparr>log_probabilities = map (\<lambda>i. map log_probabilities rvs ! i) kw,
                            keyword_indices = kw\<rparr>)
                 (map (take (Max (set ns)))
                    (map (\<lambda>row. np_argsort (map fneg row)) (map log_probabilities rvs)))"
  using assms
  by (auto simp: random_vars_at_least_cumulative_probability_def Let_def zip_rows
      simp del: map_map split: if_splits sum.splits dest: num_indices_nonempty)

lemma reduced_support_prefix:
  assumes "random_vars_at_least_cumulative_probability rvs p = Inr reduced"
  shows "\<exists>width. 1 \<le> width \<and> (\<forall>r<length rvs. keyword_indices (reduced ! r)
           = take width (np_argsort (map fneg (log_probabilities (rvs ! r)))))"
proof -
  let ?rows = "map log_probabilities rvs"
  let ?orders = "map (\<lambda>row. np_argsort (map fneg row)) ?rows"
  from random_vars_Inr [OF assms] obtain ns where ne: "rvs \<noteq> []"
    and ns: "num_indices_for_cumulative_probability ?rows ?orders p = Inr ns"
    and red: "reduced = map (\<lambda>kw. \<lparr>log_probabilities = map (\<lambda>i. ?rows ! i) kw,
                                     keyword_indices = kw\<rparr>)
                 (map (take (Max (set ns))) ?orders)"
    by blast
  from ne have "0 < length ?rows" by simp
  from num_indices_row [OF ns this] have "ns \<noteq> []" "1 \<le> ns ! 0" using ne by auto
  then have "ns ! 0 \<in> set ns" by simp
  then have "ns ! 0 \<le> Max (set ns)" by simp
  with \<open>1 \<le> ns ! 0\<close> have "1 \<le> Max (set ns)" by simp
  moreover have "\<forall>r<length rvs. keyword_indices (reduced ! r)
           = take (Max (set ns)) (np_argsort (map fneg (log_probabilities (rvs ! r))))"
    by (simp add: red)
  ultimately show ?thesis by blast
qed

text \<open>
  Claim C10. Every prefix length that \<^verbatim>\<open>num_indices_for_cumulative_probability\<close>
  returns is at least 1, whatever the threshold (the position of the first cumulative sum
  that reaches the threshold, or 0 when none does, plus one). For a non-empty batch of
  beliefs over one common non-empty support, ordered by decreasing probability as the
  size-reducing function orders them, it does return one length for each belief. Every
  belief that \<^verbatim>\<open>random_vars_at_least_cumulative_probability\<close> returns has a non-empty
  support.
\<close>

theorem prefix_length_positive:
  "(num_indices_for_cumulative_probability log_probs by_decreasing p = Inr num_indices \<longrightarrow>
      (\<forall>n\<in>set num_indices. 1 \<le> n)) \<and>
   (rvs \<noteq> [] \<and> 0 < K \<and> (\<forall>rv\<in>set rvs. length (log_probabilities rv) = K) \<longrightarrow>
      (\<exists>ns. num_indices_for_cumulative_probability (map log_probabilities rvs)
               (map (\<lambda>row. np_argsort (map fneg row)) (map log_probabilities rvs)) p = Inr ns \<and>
            length ns = length rvs \<and> (\<forall>n\<in>set ns. 1 \<le> n))) \<and>
   (random_vars_at_least_cumulative_probability rvs p = Inr reduced \<longrightarrow>
      length reduced = length rvs \<and>
      (\<forall>rv\<in>set reduced. keyword_indices rv \<noteq> [] \<and> log_probabilities rv \<noteq> []))"
proof -
  have p1: "num_indices_for_cumulative_probability log_probs by_decreasing p = Inr num_indices \<longrightarrow>
      (\<forall>n\<in>set num_indices. 1 \<le> n)"
    using num_indices_positive by blast
  have p2: "rvs \<noteq> [] \<and> 0 < K \<and> (\<forall>rv\<in>set rvs. length (log_probabilities rv) = K) \<longrightarrow>
      (\<exists>ns. num_indices_for_cumulative_probability (map log_probabilities rvs)
               (map (\<lambda>row. np_argsort (map fneg row)) (map log_probabilities rvs)) p = Inr ns \<and>
            length ns = length rvs \<and> (\<forall>n\<in>set ns. 1 \<le> n))"
  proof
  assume b: "rvs \<noteq> [] \<and> 0 < K \<and> (\<forall>rv\<in>set rvs. length (log_probabilities rv) = K)"
  let ?rows = "map log_probabilities rvs"
  from b have "\<forall>row\<in>set ?rows. length row = K" and "?rows \<noteq> []" by auto
  with b obtain ns where ns: "num_indices_for_cumulative_probability ?rows
      (map (\<lambda>row. np_argsort (map fneg row)) ?rows) p = Inr ns"
    using num_indices_total [of K ?rows p] by blast
  have "\<forall>r<length ?rows. 1 \<le> ns ! r" and l: "length ns = length ?rows"
    using num_indices_row [OF ns]
    using ns by (auto simp: num_indices_for_cumulative_probability_def broadcast_rows_def traverse_Inr_iff
        split: if_splits)
  then have "\<forall>n\<in>set ns. 1 \<le> n" by (auto simp: in_set_conv_nth)
  with ns l show "\<exists>ns. num_indices_for_cumulative_probability ?rows
               (map (\<lambda>row. np_argsort (map fneg row)) ?rows) p = Inr ns \<and>
            length ns = length rvs \<and> (\<forall>n\<in>set ns. 1 \<le> n)"
    by auto
  qed
  have p3: "random_vars_at_least_cumulative_probability rvs p = Inr reduced \<longrightarrow>
      length reduced = length rvs \<and>
      (\<forall>rv\<in>set reduced. keyword_indices rv \<noteq> [] \<and> log_probabilities rv \<noteq> [])"
  proof
  assume c: "random_vars_at_least_cumulative_probability rvs p = Inr reduced"
  let ?rows = "map log_probabilities rvs"
  let ?orders = "map (\<lambda>row. np_argsort (map fneg row)) ?rows"
  from random_vars_Inr [OF c] obtain ns where ne: "rvs \<noteq> []"
    and ns: "num_indices_for_cumulative_probability ?rows ?orders p = Inr ns"
    and red: "reduced = map (\<lambda>kw. \<lparr>log_probabilities = map (\<lambda>i. ?rows ! i) kw,
                                     keyword_indices = kw\<rparr>)
                 (map (take (Max (set ns))) ?orders)"
    by blast
  have row: "length ns = length rvs \<and> 1 \<le> ns ! r \<and> ns ! r \<le> length (?orders ! r)"
    if "r < length rvs" for r
    using num_indices_row [OF ns, of r] that by simp
  from ne have "0 < length rvs" by simp
  from row [OF this] have "ns \<noteq> []" "1 \<le> ns ! 0" using ne by auto
  then have "ns ! 0 \<in> set ns" by simp
  then have "ns ! 0 \<le> Max (set ns)" by simp
  with \<open>1 \<le> ns ! 0\<close> have M: "1 \<le> Max (set ns)" by simp
  have kw: "take (Max (set ns)) (?orders ! r) \<noteq> []" if "r < length rvs" for r
    using row [OF that] M by auto
  have each: "keyword_indices rv \<noteq> [] \<and> log_probabilities rv \<noteq> []"
    if "rv \<in> set reduced" for rv
  proof -
    from that obtain r where r: "r < length reduced" "reduced ! r = rv"
      by (auto simp: in_set_conv_nth)
    then have r': "r < length rvs" by (simp add: red)
    with r(2) have "keyword_indices rv = take (Max (set ns)) (?orders ! r)"
      "log_probabilities rv = map (\<lambda>i. ?rows ! i) (take (Max (set ns)) (?orders ! r))"
      by (auto simp: red)
    with kw [OF r'] show ?thesis by auto
  qed
  have "length reduced = length rvs" by (simp add: red)
  with each show "length reduced = length rvs \<and>
      (\<forall>rv\<in>set reduced. keyword_indices rv \<noteq> [] \<and> log_probabilities rv \<noteq> [])"
    by blast
  qed
  from p1 p2 p3 show ?thesis by blast
qed

text \<open>The notebook's full-support beliefs for the card CAT, BOAT, RUM, DRAG, as the
  notebook passes them to the size-reducing function.\<close>

lemma dense_beliefs:
  "dense_belief 4 0 = \<lparr>log_probabilities = [Fin 0, NInf, NInf, NInf], keyword_indices = [0, 1, 2, 3]\<rparr>"
  "dense_belief 4 1 = \<lparr>log_probabilities = [NInf, Fin 0, NInf, NInf], keyword_indices = [0, 1, 2, 3]\<rparr>"
  "dense_belief 4 2 = \<lparr>log_probabilities = [NInf, NInf, Fin 0, NInf], keyword_indices = [0, 1, 2, 3]\<rparr>"
  "dense_belief 4 3 = \<lparr>log_probabilities = [NInf, NInf, NInf, Fin 0], keyword_indices = [0, 1, 2, 3]\<rparr>"
  unfolding dense_belief_def by code_simp+

lemma notebook_argsort:
  "np_argsort [PInf, Fin 0, PInf, PInf] = [1, 0, 2, 3]"
  "np_argsort [Fin 0, PInf, PInf, PInf] = [0, 1, 2, 3]"
  "np_argsort [PInf, PInf, Fin 0, PInf] = [2, 0, 1, 3]"
  "np_argsort [PInf, PInf, PInf, Fin 0] = [3, 0, 1, 2]"
  by (simp_all add: np_argsort_def upt_rec)

lemma notebook_num_indices:
  "num_indices_for_cumulative_probability
     [[NInf, Fin 0, NInf, NInf], [Fin 0, NInf, NInf, NInf], [NInf, NInf, Fin 0, NInf],
      [NInf, NInf, NInf, Fin 0]]
     [[1, 0, 2, 3], [0, 1, 2, 3], [2, 0, 1, 3], [3, 0, 1, 2]] 1 = Inr [1, 1, 1, 1]"
  by (simp add: num_indices_for_cumulative_probability_def broadcast_rows_def np_cumsum_def np_argmax_bool_def)

lemma notebook_reduced:
  "random_vars_at_least_cumulative_probability
     [dense_belief 4 1, dense_belief 4 0, dense_belief 4 2, dense_belief 4 3] 1
   = Inr [\<lparr>log_probabilities = [[Fin 0, NInf, NInf, NInf]], keyword_indices = [1]\<rparr>,
          \<lparr>log_probabilities = [[NInf, Fin 0, NInf, NInf]], keyword_indices = [0]\<rparr>,
          \<lparr>log_probabilities = [[NInf, NInf, Fin 0, NInf]], keyword_indices = [2]\<rparr>,
          \<lparr>log_probabilities = [[NInf, NInf, NInf, Fin 0]], keyword_indices = [3]\<rparr>]"
  unfolding dense_beliefs
  by (simp add: random_vars_at_least_cumulative_probability_def rectangular_def Let_def
      notebook_argsort num_indices_for_cumulative_probability_def broadcast_rows_def np_cumsum_def
      np_argmax_bool_def)

lemma single_belief_index_error:
  "random_vars_at_least_cumulative_probability [dense_belief 4 1] 1 = Inl IndexError"
  unfolding dense_beliefs
  by (simp add: random_vars_at_least_cumulative_probability_def rectangular_def Let_def
      notebook_argsort num_indices_for_cumulative_probability_def broadcast_rows_def np_cumsum_def
      np_argmax_bool_def)

theorem prefix_length_positive_witness:
  "(\<exists>ns. num_indices_for_cumulative_probability
       (map log_probabilities [dense_belief 4 1, dense_belief 4 0, dense_belief 4 2, dense_belief 4 3])
       (map (\<lambda>row. np_argsort (map fneg row))
          (map log_probabilities [dense_belief 4 1, dense_belief 4 0, dense_belief 4 2, dense_belief 4 3]))
       (1/2) = Inr ns \<and> length ns = 4 \<and> list_all (\<lambda>n. 1 \<le> n) ns) \<and>
   (\<exists>reduced. random_vars_at_least_cumulative_probability
       [dense_belief 4 1, dense_belief 4 0, dense_belief 4 2, dense_belief 4 3] 1 = Inr reduced \<and>
     length reduced = 4 \<and> list_all (\<lambda>rv. keyword_indices rv \<noteq> []) reduced)"
proof -
  let ?rvs = "[dense_belief 4 1, dense_belief 4 0, dense_belief 4 2, dense_belief 4 3]"
  let ?reduced = "[\<lparr>log_probabilities = [[Fin 0, NInf, NInf, NInf]], keyword_indices = [1]\<rparr>,
          \<lparr>log_probabilities = [[NInf, Fin 0, NInf, NInf]], keyword_indices = [0]\<rparr>,
          \<lparr>log_probabilities = [[NInf, NInf, Fin 0, NInf]], keyword_indices = [2]\<rparr>,
          \<lparr>log_probabilities = [[NInf, NInf, NInf, Fin 0]], keyword_indices = [3 :: nat]\<rparr>]"
  have h: "?rvs \<noteq> [] \<and> 0 < (4::nat) \<and> (\<forall>rv\<in>set ?rvs. length (log_probabilities rv) = 4)"
    by (simp add: dense_belief_def)
  from prefix_length_positive [of "[]" "[]" "1/2" "[]" ?rvs 4 ?reduced] h
  obtain ns where ns: "num_indices_for_cumulative_probability (map log_probabilities ?rvs)
       (map (\<lambda>row. np_argsort (map fneg row)) (map log_probabilities ?rvs)) (1/2) = Inr ns"
      "length ns = length ?rvs" "\<forall>n\<in>set ns. 1 \<le> n"
    by blast
  then have 1: "\<exists>ns. num_indices_for_cumulative_probability (map log_probabilities ?rvs)
       (map (\<lambda>row. np_argsort (map fneg row)) (map log_probabilities ?rvs)) (1/2) = Inr ns \<and>
       length ns = 4 \<and> list_all (\<lambda>n. 1 \<le> n) ns"
    by (auto simp: list_all_iff)
  have r: "random_vars_at_least_cumulative_probability ?rvs 1 = Inr ?reduced"
    by (rule notebook_reduced)
  with prefix_length_positive [of "[]" "[]" 1 "[]" ?rvs 4 ?reduced]
  have "length ?reduced = length ?rvs \<and> (\<forall>rv\<in>set ?reduced. keyword_indices rv \<noteq> [])"
    by blast
  with r have 2: "\<exists>reduced. random_vars_at_least_cumulative_probability ?rvs 1 = Inr reduced \<and>
     length reduced = 4 \<and> list_all (\<lambda>rv. keyword_indices rv \<noteq> []) reduced"
    by (auto simp: list_all_iff)
  from 1 2 show ?thesis by blast
qed

text \<open>A belief with the probabilities \<open>1/2\<close>, \<open>3/10\<close> and \<open>1/5\<close>.\<close>

lemma ln_sums:
  "ln (1/2) + ln (3/10) = ln (3/20 :: real)"
  "ln (3/20) + ln (1/5) = ln (3/100 :: real)"
  using ln_mult [of "1/2 :: real" "3/10"] ln_mult [of "3/20 :: real" "1/5"] by simp_all

lemma half_argsort:
  "np_argsort [Fin (- ln (1/2)), Fin (- ln (3/10)), Fin (- ln (1/5))] = [0, 1, 2]"
  by (simp add: np_argsort_def upt_rec)

text \<open>
  Claim C3, on the code. The cumulative sum is taken over the log-probabilities
  themselves and compared with the logarithm of the threshold. For the belief with
  probabilities \<open>1/2\<close>, \<open>3/10\<close>, \<open>1/5\<close> and the threshold \<open>9/10\<close> the sums are
  \<open>ln (1/2)\<close>, \<open>ln (3/20)\<close>, \<open>ln (3/100)\<close>, none of which reaches \<open>ln (9/10)\<close>: the prefix
  length is 1 and the reduced belief keeps index 0 alone, of probability \<open>1/2\<close>, below the
  threshold. The running sum of the probabilities reaches \<open>9/10\<close> only with the third
  entry.
\<close>

theorem cumulative_sum_of_logarithms:
  "random_vars_at_least_cumulative_probability
     [\<lparr>log_probabilities = [Fin (ln (1/2)), Fin (ln (3/10)), Fin (ln (1/5))],
       keyword_indices = [0, 1, 2]\<rparr>] (9/10)
   = Inr [\<lparr>log_probabilities = [[Fin (ln (1/2)), Fin (ln (3/10)), Fin (ln (1/5))]],
           keyword_indices = [0]\<rparr>] \<and>
   num_indices_for_cumulative_probability
     [[Fin (ln (1/2)), Fin (ln (3/10)), Fin (ln (1/5))]] [[0, 1, 2]] (9/10) = Inr [1] \<and>
   np_cumsum [Fin (ln (1/2)), Fin (ln (3/10)), Fin (ln (1/5))]
     = [Fin (ln (1/2)), Fin (ln (3/20)), Fin (ln (3/100))] \<and>
   prob_of (Fin (ln (1/2))) < 9/10 \<and>
   prob_of (Fin (ln (1/2))) + prob_of (Fin (ln (3/10))) < 9/10 \<and>
   9/10 \<le> prob_of (Fin (ln (1/2))) + prob_of (Fin (ln (3/10))) + prob_of (Fin (ln (1/5)))"
proof -
  have c: "np_cumsum [Fin (ln (1/2)), Fin (ln (3/10)), Fin (ln (1/5))]
     = [Fin (ln (1/2)), Fin (ln (3/20)), Fin (ln (3/100))]"
    by (simp add: np_cumsum_def ln_sums)
  have n: "num_indices_for_cumulative_probability
     [[Fin (ln (1/2)), Fin (ln (3/10)), Fin (ln (1/5))]] [[0, 1, 2]] (9/10) = Inr [1]"
    using c by (simp add: num_indices_for_cumulative_probability_def broadcast_rows_def np_argmax_bool_def)
  have r: "random_vars_at_least_cumulative_probability
     [\<lparr>log_probabilities = [Fin (ln (1/2)), Fin (ln (3/10)), Fin (ln (1/5))],
       keyword_indices = [0, 1, 2]\<rparr>] (9/10)
   = Inr [\<lparr>log_probabilities = [[Fin (ln (1/2)), Fin (ln (3/10)), Fin (ln (1/5))]],
           keyword_indices = [0]\<rparr>]"
    using n by (simp add: random_vars_at_least_cumulative_probability_def rectangular_def Let_def
      half_argsort)
  from c n r show ?thesis by simp
qed

text \<open>
  Claim C4, on the code. On the notebook's four full-support beliefs and the default
  threshold 1 the function keeps, for each belief, the index of its keyword, and stores
  as its log-probabilities a two-dimensional array whose one row is a whole row of the
  batch: the row of the belief whose position in the batch is the retained keyword
  index. The belief of slot 0 (keyword index 1) gets the log-probabilities of the belief
  of slot 1, not its own log-probability 0 at index 1. On that belief alone, the function
  raises IndexError, since the batch has no row 1.
\<close>

theorem reduced_log_probabilities_rows:
  "random_vars_at_least_cumulative_probability
     [dense_belief 4 1, dense_belief 4 0, dense_belief 4 2, dense_belief 4 3] 1
   = Inr [\<lparr>log_probabilities = [[Fin 0, NInf, NInf, NInf]], keyword_indices = [1]\<rparr>,
          \<lparr>log_probabilities = [[NInf, Fin 0, NInf, NInf]], keyword_indices = [0]\<rparr>,
          \<lparr>log_probabilities = [[NInf, NInf, Fin 0, NInf]], keyword_indices = [2]\<rparr>,
          \<lparr>log_probabilities = [[NInf, NInf, NInf, Fin 0]], keyword_indices = [3]\<rparr>] \<and>
   log_probabilities (dense_belief 4 1) = [NInf, Fin 0, NInf, NInf] \<and>
   log_probabilities (dense_belief 4 0) = [Fin 0, NInf, NInf, NInf] \<and>
   random_vars_at_least_cumulative_probability [dense_belief 4 1] 1 = Inl IndexError"
proof -
  have "log_probabilities (dense_belief 4 1) = [NInf, Fin 0, NInf, NInf]"
    "log_probabilities (dense_belief 4 0) = [Fin 0, NInf, NInf, NInf]"
    unfolding dense_beliefs by simp_all
  with notebook_reduced single_belief_index_error show ?thesis by blast
qed

end
